theory Spec2Isabelle
  imports Main "HOL-Library.Word" "HOL-Library.Signed_Division"
begin

section \<open>Data model\<close>

text \<open>
  Go's \<open>int\<close> is a two's-complement machine integer; it is taken at 64 bits. Addition,
  subtraction and multiplication wrap around, comparison is signed, and division
  truncates towards zero.
\<close>

type_synonym gint = "64 word"

definition go_div :: "gint \<Rightarrow> gint \<Rightarrow> gint" where
  "go_div a b = word_of_int (sint a sdiv sint b)"

text \<open>The closure \<open>max\<close> of \<open>preferredSize\<close>: \<open>if a > b { return a }; return b\<close>.\<close>

definition max_int :: "gint \<Rightarrow> gint \<Rightarrow> gint" where
  "max_int a b = (if b <s a then a else b)"

text \<open>\<open>type orientation bool\<close> with its two constants.\<close>

datatype orientation = horizontal | vertical

text \<open>
  Modelled from the spec: the declaration of \<open>sysSizeData\<close> is missing. The layout
  code reads and writes the four fields below, all of type \<open>int\<close>.
\<close>

record sysSizeData =
  xmargin :: gint
  ymargin :: gint
  xpadding :: gint
  ypadding :: gint

text \<open>The handle of the owning window (\<open>*sysData\<close>) is opaque to the layout code.\<close>

type_synonym sysData = nat

text \<open>
  Errors returned by \<open>make\<close>: the error of a native control, or the error that
  \<open>Stack.make\<close> builds with
  \<open>fmt.Errorf("error adding control %d to Stack: %v", i, err)\<close>, kept as the pair of
  the index and the wrapped error.
\<close>

datatype error = NativeError string | AddingControl nat error

text \<open>
  Abnormal termination: the two explicit panics of \<open>SetStretchy\<close>, and the panic of the
  Go runtime when a slice is indexed out of range.
\<close>

datatype panic =
    SetStretchyAfterCreated
  | SetStretchyIndex gint
  | RuntimeIndexOutOfRange

text \<open>
  A \<open>Control\<close> is either a \<open>Stack\<close>, with the fields of the struct (the mutex apart: the
  model is sequential), or a leaf control of the native toolkit. The controls of a
  Stack are held by value: a control is in one place of one tree.
\<close>

text \<open>
  Modelled from the spec: the \<open>Control\<close> interface and the leaf controls that implement
  it are missing. A leaf \<open>Widget\<close> answers \<open>preferredSize\<close> by a pure query of the sizing
  context, \<open>make\<close> with the error its native constructor gives for the window
  (remembering that it has been realized when there is none), and \<open>allocate\<close> with the
  single allocation of the rectangle it was given.
\<close>

datatype control =
    Widget (wpreferred: "sysSizeData \<Rightarrow> gint \<times> gint")
           (wmake: "sysData \<Rightarrow> error option")
           (wmade: bool)
  | Stack (created: bool)
          (orientation: orientation)
          (controls: "control list")
          (stretchy: "bool list")
          (width: "gint list")
          (height: "gint list")

text \<open>
  Modelled from the spec: the declaration of \<open>allocation\<close> is missing. It is the
  rectangle assigned to a control together with the optional \<open>neighbor\<close>
  that \<open>Stack.allocate\<close> assigns a \<open>Control\<close> to. A reference to a control is kept as the
  value the control has at the moment of the assignment.
\<close>

record allocation =
  alloc_x :: gint
  alloc_y :: gint
  alloc_width :: gint
  alloc_height :: gint
  neighbor :: "control option"

section \<open>Construction and configuration\<close>

definition newStack :: "orientation \<Rightarrow> control list \<Rightarrow> control" where
  "newStack ori cs =
     Stack False ori cs
       (replicate (length cs) False)
       (replicate (length cs) 0)
       (replicate (length cs) 0)"

definition NewHorizontalStack :: "control list \<Rightarrow> control" where
  "NewHorizontalStack cs = newStack horizontal cs"


definition space :: control where
  "space = newStack horizontal []"

definition Space :: control where
  "Space = space"

text \<open>
  \<open>SetStretchy\<close> is a method of \<open>*Stack\<close> only. The index is an \<open>int\<close>; after the two
  explicit checks, \<open>s.stretchy[index] = true\<close> is a slice store, which the runtime
  refuses out of range.
\<close>

fun SetStretchy :: "control \<Rightarrow> gint \<Rightarrow> panic + control" where
  "SetStretchy (Stack cr ori cs st ws hs) index =
     (if cr then Inl SetStretchyAfterCreated
      else if index <s 0 \<or> of_nat (length st) <s index then Inl (SetStretchyIndex index)
      else if 0 \<le> sint index \<and> nat (sint index) < length st
        then Inr (Stack cr ori cs (st[nat (sint index) := True]) ws hs)
        else Inl RuntimeIndexOutOfRange)"

section \<open>Realization\<close>

text \<open>
  \<open>make\<close> returns the error (if any) and the control as the call leaves it.
  \<open>make_loop\<close> is the \<open>for i, c := range s.controls\<close> of \<open>Stack.make\<close>: it stops at the
  first child whose \<open>make\<close> fails and reports its index. The controls the loop has not
  reached are returned as they were given. The code holds pointers: where one object
  occurs twice among the controls (the shared \<open>Space\<close> may), it has one state for both
  occurrences, so a later occurrence shows what \<open>make\<close> did at an earlier one. What the
  model says of the error, of the \<open>created\<close> flag of the Stack and of the controls up to
  the failing one does not depend on that.
\<close>

function (sequential) make :: "control \<Rightarrow> sysData \<Rightarrow> error option \<times> control"
  and make_loop :: "sysData \<Rightarrow> nat \<Rightarrow> control list \<Rightarrow> (nat \<times> error) option \<times> control list"
where
  "make (Widget p mk m) window =
     (case mk window of
        None \<Rightarrow> (None, Widget p mk True)
      | Some err \<Rightarrow> (Some err, Widget p mk m))"
| "make (Stack cr ori cs st ws hs) window =
     (case make_loop window 0 cs of
        (Some (i, err), cs') \<Rightarrow> (Some (AddingControl i err), Stack cr ori cs' st ws hs)
      | (None, cs') \<Rightarrow> (None, Stack True ori cs' st ws hs))"
| "make_loop window i [] = (None, [])"
| "make_loop window i (c # cs) =
     (case make c window of
        (Some err, c') \<Rightarrow> (Some (i, err), c' # cs)
      | (None, c') \<Rightarrow>
          (case make_loop window (i + 1) cs of (r, cs') \<Rightarrow> (r, c' # cs')))"
  by pat_completeness auto
termination
  by (relation "measure (\<lambda>v. case v of
                    Inl (c, _) \<Rightarrow> size c
                  | Inr (_, _, cs) \<Rightarrow> size_list size cs)") auto

section \<open>Preferred size\<close>

text \<open>
  The body of the loop of \<open>Stack.preferredSize\<close> for one control: \<open>si\<close> is
  \<open>s.stretchy[i]\<close>, \<open>(cw, ch)\<close> the preferred size of the control, and the state is
  \<open>(nStretchy, maxswid, maxsht, width, height)\<close>.
\<close>

definition preferredSize_step ::
  "orientation \<Rightarrow> bool \<Rightarrow> gint \<times> gint \<Rightarrow> gint \<times> gint \<times> gint \<times> gint \<times> gint
     \<Rightarrow> gint \<times> gint \<times> gint \<times> gint \<times> gint" where
  "preferredSize_step ori si sz acc =
     (case sz of (cw, ch) \<Rightarrow>
      case acc of (nStretchy, maxswid, maxsht, w, h) \<Rightarrow>
        (if si then nStretchy + 1 else nStretchy,
         if si then max_int maxswid cw else maxswid,
         if si then max_int maxsht ch else maxsht,
         if ori = horizontal then (if \<not> si then w + cw else w) else max_int w cw,
         if ori = horizontal then max_int h ch else (if \<not> si then h + ch else h)))"

function (sequential) preferredSize :: "control \<Rightarrow> sysSizeData \<Rightarrow> panic + gint \<times> gint"
  and preferredSize_loop ::
    "orientation \<Rightarrow> bool list \<Rightarrow> sysSizeData \<Rightarrow> nat \<Rightarrow> control list
       \<Rightarrow> gint \<times> gint \<times> gint \<times> gint \<times> gint
       \<Rightarrow> panic + gint \<times> gint \<times> gint \<times> gint \<times> gint"
where
  "preferredSize (Widget p mk m) d = Inr (p d)"
| "preferredSize (Stack cr ori cs st ws hs) d =
     (if length cs = 0 then Inr (0, 0)
      else
        (case preferredSize_loop ori st d 0 cs
                (0, 0, 0,
                 if ori = horizontal then (of_nat (length cs) - 1) * xpadding d else 0,
                 if ori = horizontal then 0 else (of_nat (length cs) - 1) * ypadding d) of
           Inl p \<Rightarrow> Inl p
         | Inr (nStretchy, maxswid, maxsht, w, h) \<Rightarrow>
             Inr (if ori = horizontal then w + nStretchy * maxswid else w,
                  if ori = horizontal then h else h + nStretchy * maxsht)))"
| "preferredSize_loop ori st d i [] acc = Inr acc"
| "preferredSize_loop ori st d i (c # cs) acc =
     (case preferredSize c d of
        Inl p \<Rightarrow> Inl p
      | Inr sz \<Rightarrow>
          if i < length st
          then preferredSize_loop ori st d (i + 1) cs (preferredSize_step ori (st ! i) sz acc)
          else Inl RuntimeIndexOutOfRange)"
  by pat_completeness auto
termination
  by (relation "measure (\<lambda>v. case v of
                    Inl (c, _) \<Rightarrow> size c
                  | Inr (_, _, _, _, cs, _) \<Rightarrow> size_list size cs)") auto

section \<open>Allocation\<close>

text \<open>
  Step 1 of \<open>Stack.allocate\<close>: the preferred sizes of the non-stretchy controls are
  written to the caches \<open>s.width\<close> and \<open>s.height\<close> (\<open>w\<close> and \<open>h\<close> are the inset width
  and height), their extent along the stack is taken from the space left to the
  stretchy controls, and the stretchy controls are counted. The state is
  \<open>(s.width, s.height, stretchywid, stretchyht, nStretchy)\<close>.
\<close>

fun allocate_sizes ::
  "orientation \<Rightarrow> bool list \<Rightarrow> sysSizeData \<Rightarrow> gint \<Rightarrow> gint \<Rightarrow> nat \<Rightarrow> control list
     \<Rightarrow> gint list \<times> gint list \<times> gint \<times> gint \<times> gint
     \<Rightarrow> panic + gint list \<times> gint list \<times> gint \<times> gint \<times> gint"
where
  "allocate_sizes ori st d w h i [] acc = Inr acc"
| "allocate_sizes ori st d w h i (c # cs) (ws, hs, stretchywid, stretchyht, nStretchy) =
     (if i < length st then
        if st ! i
        then allocate_sizes ori st d w h (i + 1) cs
               (ws, hs, stretchywid, stretchyht, nStretchy + 1)
        else
          (case preferredSize c d of
             Inl p \<Rightarrow> Inl p
           | Inr (cw, ch) \<Rightarrow>
               if i < length ws \<and> i < length hs then
                 if ori = horizontal
                 then allocate_sizes ori st d w h (i + 1) cs
                        (ws[i := cw], hs[i := h], stretchywid - cw, stretchyht, nStretchy)
                 else allocate_sizes ori st d w h (i + 1) cs
                        (ws[i := w], hs[i := ch], stretchywid, stretchyht - ch, nStretchy)
               else Inl RuntimeIndexOutOfRange)
      else Inl RuntimeIndexOutOfRange)"

text \<open>
  Step 2, second loop: every stretchy control gets \<open>stretchywid\<close> and \<open>stretchyht\<close>.
  The loop is \<open>for i := range s.controls\<close>; the list argument only counts.
\<close>

fun allocate_stretchy ::
  "bool list \<Rightarrow> gint \<Rightarrow> gint \<Rightarrow> nat \<Rightarrow> control list \<Rightarrow> gint list \<times> gint list
     \<Rightarrow> panic + gint list \<times> gint list"
where
  "allocate_stretchy st stretchywid stretchyht i [] acc = Inr acc"
| "allocate_stretchy st stretchywid stretchyht i (c # cs) (ws, hs) =
     (if i < length st then
        if \<not> st ! i
        then allocate_stretchy st stretchywid stretchyht (i + 1) cs (ws, hs)
        else if i < length ws \<and> i < length hs
        then allocate_stretchy st stretchywid stretchyht (i + 1) cs
               (ws[i := stretchywid], hs[i := stretchyht])
        else Inl RuntimeIndexOutOfRange
      else Inl RuntimeIndexOutOfRange)"

text \<open>
  The neighbour link of step 3. \<open>current\<close> points to an allocation that is already in
  \<open>allocations\<close> (the first one of the previous control), so it is kept as the position
  of that allocation in the list, and \<open>current.neighbor = c\<close> updates the list there.
\<close>

definition set_neighbor ::
  "nat option \<Rightarrow> control \<Rightarrow> allocation list \<Rightarrow> allocation list" where
  "set_neighbor current c allocations =
     (case current of
        None \<Rightarrow> allocations
      | Some k \<Rightarrow> allocations[k := (allocations ! k)\<lparr>neighbor := Some c\<rparr>])"

text \<open>
  \<open>allocate\<close> returns the allocations, the control as the call leaves it (a \<open>Stack\<close>
  with its caches written, its children as their own \<open>allocate\<close> left them) and the
  sizing context as the call leaves it (\<open>d\<close> is a pointer).

  \<open>allocate_place\<close> is step 3, \<open>for i, c := range s.controls\<close>, with the state
  \<open>(x, y, d, allocations, current)\<close> and the children already placed.
\<close>

function (sequential) allocate ::
    "control \<Rightarrow> gint \<Rightarrow> gint \<Rightarrow> gint \<Rightarrow> gint \<Rightarrow> sysSizeData
       \<Rightarrow> panic + allocation list \<times> control \<times> sysSizeData"
  and allocate_place ::
    "orientation \<Rightarrow> gint list \<Rightarrow> gint list \<Rightarrow> nat \<Rightarrow> control list
       \<Rightarrow> gint \<times> gint \<times> sysSizeData \<times> allocation list \<times> nat option \<Rightarrow> control list
       \<Rightarrow> panic + allocation list \<times> control list \<times> sysSizeData"
where
  "allocate (Widget p mk m) x y w h d =
     Inr ([\<lparr>alloc_x = x, alloc_y = y, alloc_width = w, alloc_height = h,
            neighbor = None\<rparr>],
          Widget p mk m, d)"
| "allocate (Stack cr ori cs st ws hs) x y w h d =
     (if length cs = 0 then Inr ([], Stack cr ori cs st ws hs, d)
      else
        let xm = xmargin d;
            ym = ymargin d;
            d = d\<lparr>xmargin := 0, ymargin := 0\<rparr>;
            x = x + xm;
            y = y + ym;
            w = w - xm * 2;
            h = h - ym * 2;
            w = (if ori = horizontal then w - (of_nat (length cs) - 1) * xpadding d else w);
            h = (if ori = horizontal then h else h - (of_nat (length cs) - 1) * ypadding d)
        in
          (case allocate_sizes ori st d w h 0 cs (ws, hs, w, h, 0) of
             Inl p \<Rightarrow> Inl p
           | Inr (ws, hs, stretchywid, stretchyht, nStretchy) \<Rightarrow>
               let stretchywid =
                     (if nStretchy \<noteq> 0 \<and> ori = horizontal
                      then go_div stretchywid nStretchy else stretchywid);
                   stretchyht =
                     (if nStretchy \<noteq> 0 \<and> ori \<noteq> horizontal
                      then go_div stretchyht nStretchy else stretchyht)
               in
                 (case allocate_stretchy st stretchywid stretchyht 0 cs (ws, hs) of
                    Inl p \<Rightarrow> Inl p
                  | Inr (ws, hs) \<Rightarrow>
                      (case allocate_place ori ws hs 0 cs (x, y, d, [], None) [] of
                         Inl p \<Rightarrow> Inl p
                       | Inr (allocations, cs', d') \<Rightarrow>
                           Inr (allocations, Stack cr ori cs' st ws hs, d')))))"
| "allocate_place ori ws hs i [] (x, y, d, allocations, current) placed =
     Inr (allocations, placed, d)"
| "allocate_place ori ws hs i (c # cs) (x, y, d, allocations, current) placed =
     (if i < length ws \<and> i < length hs then
        (case allocate c x y (ws ! i) (hs ! i) d of
           Inl p \<Rightarrow> Inl p
         | Inr (as, c', d') \<Rightarrow>
             allocate_place ori ws hs (i + 1) cs
               (if ori = horizontal then x + (ws ! i + xpadding d') else x,
                if ori = horizontal then y else y + (hs ! i + ypadding d'),
                d',
                (if ori = horizontal then set_neighbor current c' allocations
                 else allocations) @ as,
                if ori = horizontal
                then (if length as \<noteq> 0 then Some (length allocations) else None)
                else current)
               (placed @ [c']))
      else Inl RuntimeIndexOutOfRange)"
  by pat_completeness auto
termination
  by (relation "measure (\<lambda>v. case v of
                    Inl (c, _) \<Rightarrow> size c
                  | Inr (_, _, _, _, cs, _) \<Rightarrow> size_list size cs)") auto

text \<open>
  The invariant of the data model: the three parallel slices of a \<open>Stack\<close> are as long
  as \<open>controls\<close>, in the \<open>Stack\<close> and in every \<open>Stack\<close> below it. A Go slice has fewer
  than \<open>2 ^ 63\<close> elements.
\<close>

fun well_formed :: "control \<Rightarrow> bool" where
  "well_formed (Widget p mk m) = True"
| "well_formed (Stack cr ori cs st ws hs) =
     (length st = length cs \<and> length ws = length cs \<and> length hs = length cs \<and>
      length cs < 2 ^ 63 \<and> list_all well_formed cs)"

text \<open>
  Two leaf controls for concrete inputs: \<open>leaf a b\<close> prefers the size \<open>(a, b)\<close> and is
  realized without error; \<open>broken a b\<close> prefers the same size and fails to be realized.
\<close>

abbreviation (input) leaf :: "gint \<Rightarrow> gint \<Rightarrow> control" where
  "leaf a b \<equiv> Widget (\<lambda>_. (a, b)) (\<lambda>_. None) False"


abbreviation (input) no_margins :: sysSizeData where
  "no_margins \<equiv> \<lparr>xmargin = 0, ymargin = 0, xpadding = 0, ypadding = 0\<rparr>"

section \<open>Notions used to state the layout properties\<close>

text \<open>
  The preferred size a control reports (under the invariant of the data model,
  \<open>preferredSize\<close> does not panic, see \<open>preferredSize_total\<close>).
\<close>

definition preferred :: "control \<Rightarrow> sysSizeData \<Rightarrow> gint \<times> gint" where
  "preferred c d = (case preferredSize c d of Inr sz \<Rightarrow> sz | Inl p \<Rightarrow> (0, 0))"

text \<open>The stretchy and the non-stretchy controls of a Stack, in order.\<close>

definition stretchy_of :: "control list \<Rightarrow> bool list \<Rightarrow> control list" where
  "stretchy_of cs st = map fst (filter snd (zip cs st))"

definition rigid_of :: "control list \<Rightarrow> bool list \<Rightarrow> control list" where
  "rigid_of cs st = map fst (filter (\<lambda>p. \<not> snd p) (zip cs st))"

text \<open>
  The running maximum of the code: \<open>m = max(m, x)\<close> for every element \<open>x\<close> of a list in
  turn, from a start value.
\<close>

definition max_from :: "gint \<Rightarrow> gint list \<Rightarrow> gint" where
  "max_from m xs = fold (\<lambda>x m. max_int m x) xs m"

text \<open>
  The maximum of a list that is not empty, its elements read as signed integers:
  the largest of the integers, taken with the order of the integers.
\<close>

definition signed_maximum :: "gint list \<Rightarrow> gint" where
  "signed_maximum xs = word_of_int (Max (sint ` set xs))"

text \<open>
  The preferred size of a Stack of at least one control in the words of the
  specification: along the stack, \<open>(N - 1) * padding\<close>, plus the preferred extents of
  the non-stretchy controls, plus the number of stretchy controls times the largest
  preferred extent among them; across the stack, the largest preferred extent of all
  controls.
\<close>

definition along :: "orientation \<Rightarrow> gint \<times> gint \<Rightarrow> gint" where
  "along ori sz = (if ori = horizontal then fst sz else snd sz)"

definition across :: "orientation \<Rightarrow> gint \<times> gint \<Rightarrow> gint" where
  "across ori sz = (if ori = horizontal then snd sz else fst sz)"

definition padding :: "orientation \<Rightarrow> sysSizeData \<Rightarrow> gint" where
  "padding ori d = (if ori = horizontal then xpadding d else ypadding d)"

definition specified_preferredSize ::
  "orientation \<Rightarrow> control list \<Rightarrow> bool list \<Rightarrow> sysSizeData \<Rightarrow> gint \<times> gint" where
  "specified_preferredSize ori cs st d =
     (let primary =
            (of_nat (length cs) - 1) * padding ori d
            + sum_list (map (\<lambda>c. along ori (preferred c d)) (rigid_of cs st))
            + of_nat (length (stretchy_of cs st))
              * signed_maximum (map (\<lambda>c. along ori (preferred c d)) (stretchy_of cs st));
          cross = signed_maximum (map (\<lambda>c. across ori (preferred c d)) cs)
      in if ori = horizontal then (primary, cross) else (cross, primary))"

text \<open>
  The same as the loop of the code computes it: every maximum is the running maximum
  from \<open>0\<close>, the value the accumulators \<open>maxswid\<close>, \<open>maxsht\<close>, \<open>width\<close> and \<open>height\<close>
  start from (\<open>floored_eq_specified\<close> relates the two).
\<close>

definition floored_preferredSize ::
  "orientation \<Rightarrow> control list \<Rightarrow> bool list \<Rightarrow> sysSizeData \<Rightarrow> gint \<times> gint" where
  "floored_preferredSize ori cs st d =
     (let primary =
            (of_nat (length cs) - 1) * padding ori d
            + sum_list (map (\<lambda>c. along ori (preferred c d)) (rigid_of cs st))
            + of_nat (length (stretchy_of cs st))
              * max_from 0 (map (\<lambda>c. along ori (preferred c d)) (stretchy_of cs st));
          cross = max_from 0 (map (\<lambda>c. across ori (preferred c d)) cs)
      in if ori = horizontal then (primary, cross) else (cross, primary))"

text \<open>
  The sizing context with its margins consumed, and the width and height that
  \<open>Stack.allocate\<close> has left of the offered \<open>w\<close> and \<open>h\<close> after step 0: less twice the
  margin on each axis, and less \<open>(N - 1) * padding\<close> along the stack.
\<close>

definition zero_margins :: "sysSizeData \<Rightarrow> sysSizeData" where
  "zero_margins d = d\<lparr>xmargin := 0, ymargin := 0\<rparr>"

definition inset_width :: "orientation \<Rightarrow> nat \<Rightarrow> gint \<Rightarrow> sysSizeData \<Rightarrow> gint" where
  "inset_width ori n w d =
     (if ori = horizontal then w - xmargin d * 2 - (of_nat n - 1) * xpadding d
      else w - xmargin d * 2)"

definition inset_height :: "orientation \<Rightarrow> nat \<Rightarrow> gint \<Rightarrow> sysSizeData \<Rightarrow> gint" where
  "inset_height ori n h d =
     (if ori = horizontal then h - ymargin d * 2
      else h - ymargin d * 2 - (of_nat n - 1) * ypadding d)"

text \<open>
  The share of a stretchy control: what is left along the stack after the preferred
  extents of the non-stretchy controls (asked for with the margins consumed), read as
  a signed integer and divided by the number of stretchy controls, the quotient
  truncated towards zero (\<open>sdiv\<close> on the integers).
\<close>

definition stretchy_share ::
  "orientation \<Rightarrow> control list \<Rightarrow> bool list \<Rightarrow> gint \<Rightarrow> gint \<Rightarrow> sysSizeData \<Rightarrow> gint" where
  "stretchy_share ori cs st w h d =
     word_of_int
       (sint ((if ori = horizontal then inset_width ori (length cs) w d
               else inset_height ori (length cs) h d)
              - sum_list (map (\<lambda>c. along ori (preferred c (zero_margins d)))
                           (rigid_of cs st)))
        sdiv int (length (stretchy_of cs st)))"

text \<open>
  The extents resolved for the controls of a Stack: the share or the preferred extent
  along the stack, everything that is left across it.
\<close>

definition resolved_widths ::
  "orientation \<Rightarrow> control list \<Rightarrow> bool list \<Rightarrow> gint \<Rightarrow> gint \<Rightarrow> sysSizeData \<Rightarrow> gint list" where
  "resolved_widths ori cs st w h d =
     map (\<lambda>(c, s).
            if ori = horizontal
            then (if s then stretchy_share ori cs st w h d
                  else fst (preferred c (zero_margins d)))
            else inset_width ori (length cs) w d)
         (zip cs st)"

definition resolved_heights ::
  "orientation \<Rightarrow> control list \<Rightarrow> bool list \<Rightarrow> gint \<Rightarrow> gint \<Rightarrow> sysSizeData \<Rightarrow> gint list" where
  "resolved_heights ori cs st w h d =
     map (\<lambda>(c, s).
            if ori = horizontal
            then inset_height ori (length cs) h d
            else (if s then stretchy_share ori cs st w h d
                  else snd (preferred c (zero_margins d))))
         (zip cs st)"

text \<open>
  What a call of \<open>allocate\<close> on a control returns and how it leaves the control (under
  the invariant of the data model \<open>allocate\<close> does not panic, see \<open>allocate_total\<close>).
\<close>

definition allocations_of ::
  "control \<Rightarrow> gint \<Rightarrow> gint \<Rightarrow> gint \<Rightarrow> gint \<Rightarrow> sysSizeData \<Rightarrow> allocation list" where
  "allocations_of c x y w h d =
     (case allocate c x y w h d of Inr (as, c', d') \<Rightarrow> as | Inl p \<Rightarrow> [])"

definition allocated ::
  "control \<Rightarrow> gint \<Rightarrow> gint \<Rightarrow> gint \<Rightarrow> gint \<Rightarrow> sysSizeData \<Rightarrow> control" where
  "allocated c x y w h d =
     (case allocate c x y w h d of Inr (as, c', d') \<Rightarrow> c' | Inl p \<Rightarrow> c)"

text \<open>
  The cursor before control \<open>k\<close>: the start, plus, for every control before \<open>k\<close>, its
  extent and one padding. The position of control \<open>k\<close> of a Stack whose first control
  is placed at \<open>(x, y)\<close>: the cursor along the stack, the start across it.
\<close>

definition cursor :: "gint \<Rightarrow> gint list \<Rightarrow> gint \<Rightarrow> nat \<Rightarrow> gint" where
  "cursor start es pad k = start + sum_list (map (\<lambda>e. e + pad) (take k es))"

definition child_x :: "orientation \<Rightarrow> gint list \<Rightarrow> sysSizeData \<Rightarrow> gint \<Rightarrow> nat \<Rightarrow> gint" where
  "child_x ori ws d x k = (if ori = horizontal then cursor x ws (xpadding d) k else x)"

definition child_y :: "orientation \<Rightarrow> gint list \<Rightarrow> sysSizeData \<Rightarrow> gint \<Rightarrow> nat \<Rightarrow> gint" where
  "child_y ori hs d y k = (if ori = horizontal then y else cursor y hs (ypadding d) k)"

text \<open>
  The allocations that the controls \<open>cs\<close> return, and the controls as their \<open>allocate\<close>
  leaves them, when control \<open>k\<close> is given the rectangle at its position with the
  extents \<open>ws ! k\<close> and \<open>hs ! k\<close>.
\<close>

definition place_results ::
  "orientation \<Rightarrow> gint list \<Rightarrow> gint list \<Rightarrow> sysSizeData \<Rightarrow> gint \<Rightarrow> gint \<Rightarrow> control list
     \<Rightarrow> (allocation list \<times> control) list" where
  "place_results ori ws hs d x y cs =
     map (\<lambda>k. (allocations_of (cs ! k) (child_x ori ws d x k) (child_y ori hs d y k)
                  (ws ! k) (hs ! k) d,
                allocated (cs ! k) (child_x ori ws d x k) (child_y ori hs d y k)
                  (ws ! k) (hs ! k) d))
         [0..<length cs]"

text \<open>
  The neighbour links of a horizontal Stack: the first allocation of every control
  that returned one gets the control that follows, if one follows, as its neighbour;
  nothing else changes.
\<close>

definition link_first :: "control \<Rightarrow> allocation list \<Rightarrow> allocation list" where
  "link_first c as = (case as of [] \<Rightarrow> [] | a # rest \<Rightarrow> a\<lparr>neighbor := Some c\<rparr> # rest)"

fun linked :: "(allocation list \<times> control) list \<Rightarrow> allocation list" where
  "linked [] = []"
| "linked [(as, c)] = as"
| "linked ((as, c) # (as', c') # rs) = link_first c' as @ linked ((as', c') # rs)"

text \<open>
  The results of placing the controls of a Stack that is offered the rectangle
  \<open>(x, y, w, h)\<close> under the sizing context \<open>d\<close>: the first control is placed at the
  inset origin, every control has its resolved extents, and the margins are consumed.
\<close>

definition stack_results ::
  "orientation \<Rightarrow> control list \<Rightarrow> bool list \<Rightarrow> gint \<Rightarrow> gint \<Rightarrow> gint \<Rightarrow> gint \<Rightarrow> sysSizeData
     \<Rightarrow> (allocation list \<times> control) list" where
  "stack_results ori cs st x y w h d =
     place_results ori (resolved_widths ori cs st w h d) (resolved_heights ori cs st w h d)
       (zero_margins d) (x + xmargin d) (y + ymargin d) cs"

text \<open>The rectangle of an allocation: its position and its extents.\<close>

definition rect :: "allocation \<Rightarrow> gint \<times> gint \<times> gint \<times> gint" where
  "rect a = (alloc_x a, alloc_y a, alloc_width a, alloc_height a)"

text \<open>
  The number of allocations a control returns: one for a leaf control, those of its
  controls for a Stack (see \<open>length_allocations_of\<close>).
\<close>

fun leaves :: "control \<Rightarrow> nat" where
  "leaves (Widget p mk m) = 1"
| "leaves (Stack cr ori cs st ws hs) = sum_list (map leaves cs)"

text \<open>
  The configuration of a control: the control without the working storage of the
  Stacks in it (the caches \<open>width\<close> and \<open>height\<close>). Two values with the same
  configuration are the same control, seen before and after its caches were written.
\<close>

fun config :: "control \<Rightarrow> control" where
  "config (Widget p mk m) = Widget p mk m"
| "config (Stack cr ori cs st ws hs) = Stack cr ori (map config cs) st [] []"

section \<open>Lemmas on machine integers\<close>

lemma sint_of_nat_len: "n < 2 ^ 63 \<Longrightarrow> sint (of_nat n :: gint) = int n"
proof -
  assume n: "n < 2 ^ 63"
  have "take_bit 64 n = n"
    using n by (intro take_bit_nat_eq_self) simp
  then have "sint (of_nat n :: gint) = signed_take_bit 63 (int n)"
    by (simp add: sint_uint unsigned_of_nat)
  also have "\<dots> = int n"
    using n by (intro signed_take_bit_int_eq_self) auto
  finally show ?thesis .
qed

lemma go_div_of_nat:
  "n < 2 ^ 63 \<Longrightarrow> go_div a (of_nat n) = word_of_int (sint a sdiv int n)"
  by (simp add: go_div_def sint_of_nat_len)

lemma sint_max_int: "sint (max_int a b) = max (sint a) (sint b)"
  by (simp add: max_int_def word_sless_alt max_def)

section \<open>Lemmas on realization\<close>




section \<open>Lemmas on the preferred size\<close>

lemma stretchy_of_Nil [simp]: "stretchy_of [] st = []"
  by (simp add: stretchy_of_def)

lemma rigid_of_Nil [simp]: "rigid_of [] st = []"
  by (simp add: rigid_of_def)

lemma stretchy_of_Cons [simp]:
  "stretchy_of (c # cs) (s # st) = (if s then c # stretchy_of cs st else stretchy_of cs st)"
  by (simp add: stretchy_of_def)

lemma rigid_of_Cons [simp]:
  "rigid_of (c # cs) (s # st) = (if s then rigid_of cs st else c # rigid_of cs st)"
  by (simp add: rigid_of_def)

lemma max_from_Nil [simp]: "max_from m [] = m"
  by (simp add: max_from_def)

lemma max_from_Cons [simp]: "max_from m (x # xs) = max_from (max_int m x) xs"
  by (simp add: max_from_def)

lemma preferredSize_loop_formula:
  assumes "\<forall>c\<in>set cs. preferredSize c d = Inr (preferred c d)"
    and "i + length cs \<le> length st"
  shows "preferredSize_loop ori st d i cs (n, mw, mh, w, h) =
     Inr (n + of_nat (length (stretchy_of cs (drop i st))),
          max_from mw (map (\<lambda>c. fst (preferred c d)) (stretchy_of cs (drop i st))),
          max_from mh (map (\<lambda>c. snd (preferred c d)) (stretchy_of cs (drop i st))),
          if ori = horizontal
          then w + sum_list (map (\<lambda>c. fst (preferred c d)) (rigid_of cs (drop i st)))
          else max_from w (map (\<lambda>c. fst (preferred c d)) cs),
          if ori = horizontal
          then max_from h (map (\<lambda>c. snd (preferred c d)) cs)
          else h + sum_list (map (\<lambda>c. snd (preferred c d)) (rigid_of cs (drop i st))))"
  using assms
proof (induction cs arbitrary: i n mw mh w h)
  case Nil
  then show ?case by simp
next
  case (Cons c cs)
  from Cons.prems have i: "i < length st" and i': "Suc i + length cs \<le> length st" by auto
  have dr: "drop i st = st ! i # drop (Suc i) st"
    using i by (simp add: Cons_nth_drop_Suc)
  obtain cw ch where p: "preferred c d = (cw, ch)" by (cases "preferred c d")
  with Cons.prems have pc: "preferredSize c d = Inr (cw, ch)" by simp
  have rest: "\<forall>c\<in>set cs. preferredSize c d = Inr (preferred c d)"
    using Cons.prems by simp
  show ?case
    using i pc p
    by (simp add: dr preferredSize_step_def Cons.IH [OF rest i'] add.assoc)
qed

lemma preferredSize_Inr_preferred:
  "preferredSize c d = Inr sz \<Longrightarrow> preferredSize c d = Inr (preferred c d)"
  by (simp add: preferred_def)

lemma preferredSize_total: "well_formed c \<Longrightarrow> preferredSize c d = Inr (preferred c d)"
proof (induction c)
  case (Widget p mk m)
  show ?case by (simp add: preferred_def)
next
  case (Stack cr ori cs st ws hs)
  have kids: "\<forall>c\<in>set cs. preferredSize c d = Inr (preferred c d)"
    using Stack by (auto simp: list_all_iff)
  have len: "0 + length cs \<le> length st" using Stack.prems by simp
  have "\<exists>sz. preferredSize (Stack cr ori cs st ws hs) d = Inr sz"
    by (simp add: preferredSize_loop_formula [OF kids len])
  then obtain sz where "preferredSize (Stack cr ori cs st ws hs) d = Inr sz" ..
  then show ?case by (rule preferredSize_Inr_preferred)
qed

lemma preferredSize_stack:
  assumes "well_formed (Stack cr ori cs st ws hs)" and "cs \<noteq> []"
  shows "preferredSize (Stack cr ori cs st ws hs) d = Inr (floored_preferredSize ori cs st d)"
proof -
  have kids: "\<forall>c\<in>set cs. preferredSize c d = Inr (preferred c d)"
    using assms(1) by (auto simp: list_all_iff preferredSize_total)
  have len: "0 + length cs \<le> length st" using assms(1) by simp
  show ?thesis
    using assms(2)
    by (cases ori)
       (simp_all add: preferredSize_loop_formula [OF kids len] floored_preferredSize_def
          along_def across_def padding_def)
qed

section \<open>Lemmas on the sizes computed by allocate\<close>

lemma allocate_sizes_result:
  assumes "\<forall>c\<in>set cs. preferredSize c d = Inr (preferred c d)"
    and "i + length cs \<le> length st" and "length ws = length st" and "length hs = length st"
  shows "\<exists>ws' hs'.
     allocate_sizes ori st d w h i cs (ws, hs, sw, sh, n) =
       Inr (ws', hs',
            (if ori = horizontal
             then sw - sum_list (map (\<lambda>c. fst (preferred c d)) (rigid_of cs (drop i st)))
             else sw),
            (if ori = horizontal then sh
             else sh - sum_list (map (\<lambda>c. snd (preferred c d)) (rigid_of cs (drop i st)))),
            n + of_nat (length (stretchy_of cs (drop i st)))) \<and>
     length ws' = length st \<and> length hs' = length st \<and>
     (\<forall>j<length st. ws' ! j =
        (if i \<le> j \<and> j < i + length cs \<and> \<not> st ! j
         then (if ori = horizontal then fst (preferred (cs ! (j - i)) d) else w)
         else ws ! j)) \<and>
     (\<forall>j<length st. hs' ! j =
        (if i \<le> j \<and> j < i + length cs \<and> \<not> st ! j
         then (if ori = horizontal then h else snd (preferred (cs ! (j - i)) d))
         else hs ! j))"
  using assms
proof (induction cs arbitrary: i ws hs sw sh n)
  case Nil
  then show ?case by auto
next
  case (Cons c cs)
  from Cons.prems have i: "i < length st" and i': "Suc i + length cs \<le> length st" by auto
  have dr: "drop i st = st ! i # drop (Suc i) st"
    using i by (simp add: Cons_nth_drop_Suc)
  obtain cw ch where p: "preferred c d = (cw, ch)" by (cases "preferred c d")
  with Cons.prems have pc: "preferredSize c d = Inr (cw, ch)" by simp
  have rest: "\<forall>c\<in>set cs. preferredSize c d = Inr (preferred c d)"
    using Cons.prems by simp
  define ws1 where "ws1 = (if st ! i then ws else ws[i := (if ori = horizontal then cw else w)])"
  define hs1 where "hs1 = (if st ! i then hs else hs[i := (if ori = horizontal then h else ch)])"
  define sw1 where "sw1 = (if \<not> st ! i \<and> ori = horizontal then sw - cw else sw)"
  define sh1 where "sh1 = (if \<not> st ! i \<and> ori \<noteq> horizontal then sh - ch else sh)"
  define n1 where "n1 = (if st ! i then n + 1 else n)"
  have step: "allocate_sizes ori st d w h i (c # cs) (ws, hs, sw, sh, n) =
     allocate_sizes ori st d w h (Suc i) cs (ws1, hs1, sw1, sh1, n1)"
    using i pc Cons.prems(3,4)
    by (simp add: ws1_def hs1_def sw1_def sh1_def n1_def)
  have l1: "length ws1 = length st" "length hs1 = length st"
    using Cons.prems(3,4) by (simp_all add: ws1_def hs1_def)
  from Cons.IH [OF rest i' l1, of sw1 sh1 n1]
  obtain ws' hs' where
    r: "allocate_sizes ori st d w h (Suc i) cs (ws1, hs1, sw1, sh1, n1) =
       Inr (ws', hs',
            (if ori = horizontal
             then sw1 - sum_list (map (\<lambda>c. fst (preferred c d)) (rigid_of cs (drop (Suc i) st)))
             else sw1),
            (if ori = horizontal then sh1
             else sh1 - sum_list (map (\<lambda>c. snd (preferred c d)) (rigid_of cs (drop (Suc i) st)))),
            n1 + of_nat (length (stretchy_of cs (drop (Suc i) st))))"
    and l: "length ws' = length st" "length hs' = length st"
    and w': "\<forall>j<length st. ws' ! j =
        (if Suc i \<le> j \<and> j < Suc i + length cs \<and> \<not> st ! j
         then (if ori = horizontal then fst (preferred (cs ! (j - Suc i)) d) else w)
         else ws1 ! j)"
    and h': "\<forall>j<length st. hs' ! j =
        (if Suc i \<le> j \<and> j < Suc i + length cs \<and> \<not> st ! j
         then (if ori = horizontal then h else snd (preferred (cs ! (j - Suc i)) d))
         else hs1 ! j)"
    by blast
  have nth: "\<And>j. Suc i \<le> j \<Longrightarrow> (c # cs) ! (j - i) = cs ! (j - Suc i)"
    by (simp add: nth_Cons')
  have ws_ok: "\<forall>j<length st. ws' ! j =
        (if i \<le> j \<and> j < i + length (c # cs) \<and> \<not> st ! j
         then (if ori = horizontal then fst (preferred ((c # cs) ! (j - i)) d) else w)
         else ws ! j)"
  proof (intro allI impI)
    fix j assume j: "j < length st"
    consider "j < i" | "j = i" | "Suc i \<le> j" by linarith
    then show "ws' ! j =
        (if i \<le> j \<and> j < i + length (c # cs) \<and> \<not> st ! j
         then (if ori = horizontal then fst (preferred ((c # cs) ! (j - i)) d) else w)
         else ws ! j)"
    proof cases
      case 1
      with w' j show ?thesis by (simp add: ws1_def)
    next
      case 2
      with w' j i Cons.prems(3) p show ?thesis by (simp add: ws1_def)
    next
      case 3
      with w' j nth [OF 3] show ?thesis by (auto simp: ws1_def)
    qed
  qed
  have hs_ok: "\<forall>j<length st. hs' ! j =
        (if i \<le> j \<and> j < i + length (c # cs) \<and> \<not> st ! j
         then (if ori = horizontal then h else snd (preferred ((c # cs) ! (j - i)) d))
         else hs ! j)"
  proof (intro allI impI)
    fix j assume j: "j < length st"
    consider "j < i" | "j = i" | "Suc i \<le> j" by linarith
    then show "hs' ! j =
        (if i \<le> j \<and> j < i + length (c # cs) \<and> \<not> st ! j
         then (if ori = horizontal then h else snd (preferred ((c # cs) ! (j - i)) d))
         else hs ! j)"
    proof cases
      case 1
      with h' j show ?thesis by (simp add: hs1_def)
    next
      case 2
      with h' j i Cons.prems(4) p show ?thesis by (simp add: hs1_def)
    next
      case 3
      with h' j nth [OF 3] show ?thesis by (auto simp: hs1_def)
    qed
  qed
  have acc: "(if ori = horizontal
             then sw1 - sum_list (map (\<lambda>c. fst (preferred c d)) (rigid_of cs (drop (Suc i) st)))
             else sw1) =
            (if ori = horizontal
             then sw - sum_list (map (\<lambda>c. fst (preferred c d)) (rigid_of (c # cs) (drop i st)))
             else sw)"
       "(if ori = horizontal then sh1
             else sh1 - sum_list (map (\<lambda>c. snd (preferred c d)) (rigid_of cs (drop (Suc i) st)))) =
        (if ori = horizontal then sh
             else sh - sum_list (map (\<lambda>c. snd (preferred c d)) (rigid_of (c # cs) (drop i st))))"
       "n1 + of_nat (length (stretchy_of cs (drop (Suc i) st))) =
        n + of_nat (length (stretchy_of (c # cs) (drop i st)))"
    using p by (simp_all add: dr sw1_def sh1_def n1_def)
  show ?case
    unfolding step r acc using l ws_ok hs_ok by blast
qed

lemma allocate_stretchy_result:
  assumes "i + length cs \<le> length st" and "length ws = length st" and "length hs = length st"
  shows "\<exists>ws' hs'.
     allocate_stretchy st sw sh i cs (ws, hs) = Inr (ws', hs') \<and>
     length ws' = length st \<and> length hs' = length st \<and>
     (\<forall>j<length st. ws' ! j = (if i \<le> j \<and> j < i + length cs \<and> st ! j then sw else ws ! j)) \<and>
     (\<forall>j<length st. hs' ! j = (if i \<le> j \<and> j < i + length cs \<and> st ! j then sh else hs ! j))"
  using assms
proof (induction cs arbitrary: i ws hs)
  case Nil
  then show ?case by auto
next
  case (Cons c cs)
  from Cons.prems have i: "i < length st" and i': "Suc i + length cs \<le> length st" by auto
  define ws1 where "ws1 = (if st ! i then ws[i := sw] else ws)"
  define hs1 where "hs1 = (if st ! i then hs[i := sh] else hs)"
  have step: "allocate_stretchy st sw sh i (c # cs) (ws, hs) =
     allocate_stretchy st sw sh (Suc i) cs (ws1, hs1)"
    using i Cons.prems(2,3) by (simp add: ws1_def hs1_def)
  have l1: "length ws1 = length st" "length hs1 = length st"
    using Cons.prems(2,3) by (simp_all add: ws1_def hs1_def)
  from Cons.IH [OF i' l1]
  obtain ws' hs' where
    r: "allocate_stretchy st sw sh (Suc i) cs (ws1, hs1) = Inr (ws', hs')"
    and l: "length ws' = length st" "length hs' = length st"
    and w': "\<forall>j<length st. ws' ! j =
        (if Suc i \<le> j \<and> j < Suc i + length cs \<and> st ! j then sw else ws1 ! j)"
    and h': "\<forall>j<length st. hs' ! j =
        (if Suc i \<le> j \<and> j < Suc i + length cs \<and> st ! j then sh else hs1 ! j)"
    by blast
  have ws_ok: "\<forall>j<length st. ws' ! j =
        (if i \<le> j \<and> j < i + length (c # cs) \<and> st ! j then sw else ws ! j)"
  proof (intro allI impI)
    fix j assume j: "j < length st"
    consider "j < i" | "j = i" | "Suc i \<le> j" by linarith
    then show "ws' ! j = (if i \<le> j \<and> j < i + length (c # cs) \<and> st ! j then sw else ws ! j)"
    proof cases
      case 1
      with w' j show ?thesis by (simp add: ws1_def)
    next
      case 2
      with w' j i Cons.prems(2) show ?thesis by (simp add: ws1_def)
    next
      case 3
      with w' j show ?thesis by (auto simp: ws1_def)
    qed
  qed
  have hs_ok: "\<forall>j<length st. hs' ! j =
        (if i \<le> j \<and> j < i + length (c # cs) \<and> st ! j then sh else hs ! j)"
  proof (intro allI impI)
    fix j assume j: "j < length st"
    consider "j < i" | "j = i" | "Suc i \<le> j" by linarith
    then show "hs' ! j = (if i \<le> j \<and> j < i + length (c # cs) \<and> st ! j then sh else hs ! j)"
    proof cases
      case 1
      with h' j show ?thesis by (simp add: hs1_def)
    next
      case 2
      with h' j i Cons.prems(3) show ?thesis by (simp add: hs1_def)
    next
      case 3
      with h' j show ?thesis by (auto simp: hs1_def)
    qed
  qed
  show ?case
    unfolding step r using l ws_ok hs_ok by blast
qed

lemma of_nat_gint_neq_0: "0 < n \<Longrightarrow> n < 2 ^ 63 \<Longrightarrow> (of_nat n :: gint) \<noteq> 0"
proof
  assume n: "0 < n" "n < 2 ^ 63" and z: "(of_nat n :: gint) = 0"
  from z have "2 ^ 64 dvd n" by (simp add: word_of_nat_eq_0_iff)
  then have "(2 :: nat) ^ 64 \<le> n" using n(1) by (rule dvd_imp_le)
  with n(2) show False by simp
qed

lemma stretchy_of_length_le: "length (stretchy_of cs st) \<le> length cs"
proof -
  have "length (filter snd (zip cs st)) \<le> length (zip cs st)"
    by (rule length_filter_le)
  then show ?thesis by (simp add: stretchy_of_def)
qed

lemma stretchy_of_pos:
  "j < length cs \<Longrightarrow> length st = length cs \<Longrightarrow> st ! j \<Longrightarrow> 0 < length (stretchy_of cs st)"
proof -
  assume j: "j < length cs" and l: "length st = length cs" and s: "st ! j"
  have "(cs ! j, st ! j) \<in> set (zip cs st)"
    using j l by (auto simp: set_zip)
  with s have "(cs ! j, st ! j) \<in> set (filter snd (zip cs st))" by simp
  then have "0 < length (filter snd (zip cs st))" by (rule length_pos_if_in_set)
  then show ?thesis by (simp add: stretchy_of_def)
qed

lemma allocate_unfold:
  assumes well_formed: "well_formed (Stack cr ori cs st ws hs)" and ne: "cs \<noteq> []"
  shows "allocate (Stack cr ori cs st ws hs) x y w h d =
     (case allocate_place ori
             (resolved_widths ori cs st w h d) (resolved_heights ori cs st w h d) 0 cs
             (x + xmargin d, y + ymargin d, zero_margins d, [], None) [] of
        Inl p \<Rightarrow> Inl p
      | Inr (allocations, cs', d') \<Rightarrow>
          Inr (allocations,
               Stack cr ori cs' st
                 (resolved_widths ori cs st w h d) (resolved_heights ori cs st w h d),
               d'))"
proof -
  let ?d = "zero_margins d"
  let ?w = "inset_width ori (length cs) w d"
  let ?h = "inset_height ori (length cs) h d"
  from well_formed have len: "length st = length cs" "length ws = length st" "length hs = length st"
    and small: "length cs < 2 ^ 63"
    and kids: "\<forall>c\<in>set cs. preferredSize c ?d = Inr (preferred c ?d)"
    by (auto simp: list_all_iff preferredSize_total)
  have range: "0 + length cs \<le> length st" using len by simp
  from allocate_sizes_result [OF kids range len(2,3), of ori ?w ?h ?w ?h 0]
  obtain ws1 hs1 sw1 sh1 n1 where
    p1: "allocate_sizes ori st ?d ?w ?h 0 cs (ws, hs, ?w, ?h, 0) = Inr (ws1, hs1, sw1, sh1, n1)"
    and sw1: "sw1 = (if ori = horizontal
             then ?w - sum_list (map (\<lambda>c. fst (preferred c ?d)) (rigid_of cs st)) else ?w)"
    and sh1: "sh1 = (if ori = horizontal then ?h
             else ?h - sum_list (map (\<lambda>c. snd (preferred c ?d)) (rigid_of cs st)))"
    and n1: "n1 = of_nat (length (stretchy_of cs st))"
    and l1: "length ws1 = length st" "length hs1 = length st"
    and w1: "\<forall>j<length st. ws1 ! j =
        (if \<not> st ! j then (if ori = horizontal then fst (preferred (cs ! j) ?d) else ?w)
         else ws ! j)"
    and h1: "\<forall>j<length st. hs1 ! j =
        (if \<not> st ! j then (if ori = horizontal then ?h else snd (preferred (cs ! j) ?d))
         else hs ! j)"
    using len by auto
  define sw2 where "sw2 = (if n1 \<noteq> 0 \<and> ori = horizontal then go_div sw1 n1 else sw1)"
  define sh2 where "sh2 = (if n1 \<noteq> 0 \<and> ori \<noteq> horizontal then go_div sh1 n1 else sh1)"
  from allocate_stretchy_result [OF range l1, of sw2 sh2]
  obtain ws2 hs2 where
    p2: "allocate_stretchy st sw2 sh2 0 cs (ws1, hs1) = Inr (ws2, hs2)"
    and l2: "length ws2 = length st" "length hs2 = length st"
    and w2: "\<forall>j<length st. ws2 ! j = (if st ! j then sw2 else ws1 ! j)"
    and h2: "\<forall>j<length st. hs2 ! j = (if st ! j then sh2 else hs1 ! j)"
    using len by auto
  have share: "\<And>j. j < length st \<Longrightarrow> st ! j \<Longrightarrow>
      sw2 = (if ori = horizontal then stretchy_share ori cs st w h d else ?w) \<and>
      sh2 = (if ori = horizontal then ?h else stretchy_share ori cs st w h d)"
  proof -
    fix j assume "j < length st" "st ! j"
    then have "0 < length (stretchy_of cs st)"
      using len by (intro stretchy_of_pos [of j]) auto
    moreover have "length (stretchy_of cs st) < 2 ^ 63"
      using stretchy_of_length_le [of cs st] small by simp
    ultimately have n0: "n1 \<noteq> 0" unfolding n1 by (rule of_nat_gint_neq_0)
    have "length (stretchy_of cs st) < 2 ^ 63"
      using stretchy_of_length_le [of cs st] small by simp
    then have quot:
      "go_div a n1 = word_of_int (sint a sdiv int (length (stretchy_of cs st)))" for a
      unfolding n1 by (rule go_div_of_nat)
    show "sw2 = (if ori = horizontal then stretchy_share ori cs st w h d else ?w) \<and>
      sh2 = (if ori = horizontal then ?h else stretchy_share ori cs st w h d)"
      using n0
      by (cases ori)
         (simp_all add: sw2_def sh2_def quot sw1 sh1 stretchy_share_def along_def)
  qed
  have ws2: "ws2 = resolved_widths ori cs st w h d"
  proof (rule nth_equalityI)
    show "length ws2 = length (resolved_widths ori cs st w h d)"
      using l2 len by (simp add: resolved_widths_def)
  next
    fix j assume "j < length ws2"
    then have j: "j < length st" using l2 by simp
    show "ws2 ! j = resolved_widths ori cs st w h d ! j"
      using j len w2 w1 share [OF j] by (simp add: resolved_widths_def)
  qed
  have hs2: "hs2 = resolved_heights ori cs st w h d"
  proof (rule nth_equalityI)
    show "length hs2 = length (resolved_heights ori cs st w h d)"
      using l2 len by (simp add: resolved_heights_def)
  next
    fix j assume "j < length hs2"
    then have j: "j < length st" using l2 by simp
    show "hs2 ! j = resolved_heights ori cs st w h d ! j"
      using j len h2 h1 share [OF j] by (simp add: resolved_heights_def)
  qed
  show ?thesis
    using ne p1 p2
    by (cases ori)
       (auto simp: Let_def sw2_def sh2_def ws2 hs2 zero_margins_def inset_width_def
          inset_height_def)
qed

section \<open>Lemmas on the placement of the controls\<close>

lemma place_results_Nil [simp]: "place_results ori ws hs d x y [] = []"
  by (simp add: place_results_def)

lemma place_results_Cons:
  "place_results ori (e # es) (f # fs) d x y (c # cs) =
     (allocations_of c x y e f d, allocated c x y e f d)
     # place_results ori es fs d
         (if ori = horizontal then x + (e + xpadding d) else x)
         (if ori = horizontal then y else y + (f + ypadding d)) cs"
  unfolding place_results_def length_Cons map_upt_Suc
  by (simp add: child_x_def child_y_def cursor_def add.assoc)

lemma length_place_results [simp]: "length (place_results ori ws hs d x y cs) = length cs"
  by (simp add: place_results_def)

lemma length_set_neighbor [simp]: "length (set_neighbor cur c as) = length as"
  by (simp add: set_neighbor_def split: option.splits)

lemma set_neighbor_None [simp]: "set_neighbor None c as = as"
  by (simp add: set_neighbor_def)

lemma link_first_Nil [simp]: "link_first c [] = []"
  by (simp add: link_first_def)

lemma set_neighbor_append_first:
  "as \<noteq> [] \<Longrightarrow> length P = n \<Longrightarrow> set_neighbor (Some n) c (P @ as) = P @ link_first c as"
  by (cases as) (auto simp: set_neighbor_def link_first_def)

lemma allocate_place_result:
  assumes "\<forall>c\<in>set cs. \<forall>x y w h.
             allocate c x y w h d = Inr (allocations_of c x y w h d, allocated c x y w h d, d)"
    and "i + length cs \<le> length ws" and "i + length cs \<le> length hs"
  shows "allocate_place ori ws hs i cs (x, y, d, allocations, current) placed =
     Inr (if ori = horizontal
          then (case place_results ori (drop i ws) (drop i hs) d x y cs of
                  [] \<Rightarrow> allocations
                | r # rs \<Rightarrow> set_neighbor current (snd r) allocations)
               @ linked (place_results ori (drop i ws) (drop i hs) d x y cs)
          else allocations
               @ concat (map fst (place_results ori (drop i ws) (drop i hs) d x y cs)),
          placed @ map snd (place_results ori (drop i ws) (drop i hs) d x y cs),
          d)"
  using assms
proof (induction cs arbitrary: i x y allocations current placed)
  case Nil
  then show ?case by simp
next
  case (Cons c cs)
  from Cons.prems have i: "i < length ws" "i < length hs"
    and i': "Suc i + length cs \<le> length ws" "Suc i + length cs \<le> length hs" by auto
  have dr: "drop i ws = ws ! i # drop (Suc i) ws" "drop i hs = hs ! i # drop (Suc i) hs"
    using i by (simp_all add: Cons_nth_drop_Suc)
  have c: "allocate c x y (ws ! i) (hs ! i) d =
      Inr (allocations_of c x y (ws ! i) (hs ! i) d, allocated c x y (ws ! i) (hs ! i) d, d)"
    using Cons.prems(1) by simp
  have rest: "\<forall>c\<in>set cs. \<forall>x y w h.
             allocate c x y w h d = Inr (allocations_of c x y w h d, allocated c x y w h d, d)"
    using Cons.prems(1) by simp
  let ?as = "allocations_of c x y (ws ! i) (hs ! i) d"
  let ?c' = "allocated c x y (ws ! i) (hs ! i) d"
  let ?x' = "if ori = horizontal then x + (ws ! i + xpadding d) else x"
  let ?y' = "if ori = horizontal then y else y + (hs ! i + ypadding d)"
  let ?rs = "place_results ori (drop (Suc i) ws) (drop (Suc i) hs) d ?x' ?y' cs"
  have step: "allocate_place ori ws hs i (c # cs) (x, y, d, allocations, current) placed =
      allocate_place ori ws hs (Suc i) cs
        (?x', ?y', d,
         (if ori = horizontal then set_neighbor current ?c' allocations else allocations) @ ?as,
         if ori = horizontal
         then (if length ?as \<noteq> 0 then Some (length allocations) else None)
         else current)
        (placed @ [?c'])"
    using i c by simp
  have res: "place_results ori (drop i ws) (drop i hs) d x y (c # cs) = (?as, ?c') # ?rs"
    unfolding dr by (rule place_results_Cons)
  show ?case
  proof (cases ori)
    case vertical
    show ?thesis
      unfolding step res Cons.IH [OF rest i'] using vertical by simp
  next
    case horizontal
    show ?thesis
      unfolding step res Cons.IH [OF rest i'] using horizontal
      by (cases ?rs) (auto simp: set_neighbor_append_first)
  qed
qed

lemma allocate_Inr_of:
  "allocate c x y w h d = Inr (as, c', d') \<Longrightarrow>
     allocate c x y w h d = Inr (allocations_of c x y w h d, allocated c x y w h d, d')"
  by (simp add: allocations_of_def allocated_def)

lemma zero_margins_idem: "xmargin d = 0 \<Longrightarrow> ymargin d = 0 \<Longrightarrow> zero_margins d = d"
  by (simp add: zero_margins_def)

lemma zero_margins_fields [simp]:
  "xmargin (zero_margins d) = 0" "ymargin (zero_margins d) = 0"
  "xpadding (zero_margins d) = xpadding d" "ypadding (zero_margins d) = ypadding d"
  by (simp_all add: zero_margins_def)

lemma length_resolved [simp]:
  "length (resolved_widths ori cs st w h d) = min (length cs) (length st)"
  "length (resolved_heights ori cs st w h d) = min (length cs) (length st)"
  by (simp_all add: resolved_widths_def resolved_heights_def)

lemma allocate_stack_result:
  assumes well_formed: "well_formed (Stack cr ori cs st ws hs)" and ne: "cs \<noteq> []"
    and kids: "\<forall>c\<in>set cs. \<forall>x y w h.
             allocate c x y w h (zero_margins d) =
               Inr (allocations_of c x y w h (zero_margins d),
                    allocated c x y w h (zero_margins d), zero_margins d)"
  shows "allocate (Stack cr ori cs st ws hs) x y w h d =
     Inr (if ori = horizontal
          then linked (place_results ori
                 (resolved_widths ori cs st w h d) (resolved_heights ori cs st w h d)
                 (zero_margins d) (x + xmargin d) (y + ymargin d) cs)
          else concat (map fst (place_results ori
                 (resolved_widths ori cs st w h d) (resolved_heights ori cs st w h d)
                 (zero_margins d) (x + xmargin d) (y + ymargin d) cs)),
          Stack cr ori
            (map snd (place_results ori
                 (resolved_widths ori cs st w h d) (resolved_heights ori cs st w h d)
                 (zero_margins d) (x + xmargin d) (y + ymargin d) cs))
            st (resolved_widths ori cs st w h d) (resolved_heights ori cs st w h d),
          zero_margins d)"
proof -
  from well_formed have len: "length st = length cs" by simp
  have r: "0 + length cs \<le> length (resolved_widths ori cs st w h d)"
    "0 + length cs \<le> length (resolved_heights ori cs st w h d)"
    using len by simp_all
  show ?thesis
    unfolding allocate_unfold [OF well_formed ne] allocate_place_result [OF kids r]
    by (cases "place_results ori
                 (resolved_widths ori cs st w h d) (resolved_heights ori cs st w h d)
                 (zero_margins d) (x + xmargin d) (y + ymargin d) cs") auto
qed

lemma allocate_keeps_zero_margins:
  "well_formed c \<Longrightarrow> xmargin d = 0 \<Longrightarrow> ymargin d = 0 \<Longrightarrow>
     allocate c x y w h d = Inr (allocations_of c x y w h d, allocated c x y w h d, d)"
proof (induction c arbitrary: x y w h)
  case (Widget p mk m)
  show ?case by (simp add: allocations_of_def allocated_def)
next
  case (Stack cr ori cs st ws hs)
  have z: "zero_margins d = d" using Stack.prems(2,3) by (rule zero_margins_idem)
  show ?case
  proof (cases "cs = []")
    case True
    then show ?thesis by (simp add: allocations_of_def allocated_def)
  next
    case False
    have kids: "\<forall>c\<in>set cs. \<forall>x y w h.
             allocate c x y w h (zero_margins d) =
               Inr (allocations_of c x y w h (zero_margins d),
                    allocated c x y w h (zero_margins d), zero_margins d)"
      unfolding z using Stack.IH Stack.prems by (auto simp: list_all_iff)
    from allocate_stack_result [OF Stack.prems(1) False kids, of x y w h]
    have "\<exists>as c'. allocate (Stack cr ori cs st ws hs) x y w h d = Inr (as, c', d)"
      unfolding z by blast
    then obtain as c' where "allocate (Stack cr ori cs st ws hs) x y w h d = Inr (as, c', d)"
      by blast
    then show ?thesis by (rule allocate_Inr_of)
  qed
qed

lemma allocate_stack:
  assumes well_formed: "well_formed (Stack cr ori cs st ws hs)" and ne: "cs \<noteq> []"
  shows "allocate (Stack cr ori cs st ws hs) x y w h d =
     Inr (if ori = horizontal
          then linked (place_results ori
                 (resolved_widths ori cs st w h d) (resolved_heights ori cs st w h d)
                 (zero_margins d) (x + xmargin d) (y + ymargin d) cs)
          else concat (map fst (place_results ori
                 (resolved_widths ori cs st w h d) (resolved_heights ori cs st w h d)
                 (zero_margins d) (x + xmargin d) (y + ymargin d) cs)),
          Stack cr ori
            (map snd (place_results ori
                 (resolved_widths ori cs st w h d) (resolved_heights ori cs st w h d)
                 (zero_margins d) (x + xmargin d) (y + ymargin d) cs))
            st (resolved_widths ori cs st w h d) (resolved_heights ori cs st w h d),
          zero_margins d)"
proof -
  have kids: "\<forall>c\<in>set cs. \<forall>x y w h.
             allocate c x y w h (zero_margins d) =
               Inr (allocations_of c x y w h (zero_margins d),
                    allocated c x y w h (zero_margins d), zero_margins d)"
    using well_formed by (auto simp: list_all_iff intro: allocate_keeps_zero_margins)
  show ?thesis by (rule allocate_stack_result [OF well_formed ne kids])
qed

lemma allocate_total:
  "well_formed c \<Longrightarrow> \<exists>d'. allocate c x y w h d =
      Inr (allocations_of c x y w h d, allocated c x y w h d, d')"
proof (cases c)
  case (Widget p mk m)
  then show ?thesis by (simp add: allocations_of_def allocated_def)
next
  case (Stack cr ori cs st ws hs)
  assume "well_formed c"
  show ?thesis
  proof (cases "cs = []")
    case True
    with Stack show ?thesis by (simp add: allocations_of_def allocated_def)
  next
    case False
    from allocate_stack [OF \<open>well_formed c\<close> [unfolded Stack] False, of x y w h d]
    obtain as c' d' where "allocate c x y w h d = Inr (as, c', d')"
      unfolding Stack by blast
    then have "allocate c x y w h d = Inr (allocations_of c x y w h d, allocated c x y w h d, d')"
      by (rule allocate_Inr_of)
    then show ?thesis by blast
  qed
qed

section \<open>Lemmas on the share of the stretchy controls\<close>

lemma go_div_1 [simp]: "go_div a 1 = a"
  by (simp add: go_div_def)

lemma allocate_stack_results:
  assumes "well_formed (Stack cr ori cs st ws hs)" and "cs \<noteq> []"
  shows "allocate (Stack cr ori cs st ws hs) x y w h d =
     Inr (if ori = horizontal then linked (stack_results ori cs st x y w h d)
          else concat (map fst (stack_results ori cs st x y w h d)),
          Stack cr ori (map snd (stack_results ori cs st x y w h d)) st
            (resolved_widths ori cs st w h d) (resolved_heights ori cs st w h d),
          zero_margins d)"
  unfolding stack_results_def using assms by (rule allocate_stack)

lemma stack_results_nth:
  "i < length cs \<Longrightarrow>
   stack_results ori cs st x y w h d ! i =
     (allocations_of (cs ! i)
        (child_x ori (resolved_widths ori cs st w h d) (zero_margins d) (x + xmargin d) i)
        (child_y ori (resolved_heights ori cs st w h d) (zero_margins d) (y + ymargin d) i)
        (resolved_widths ori cs st w h d ! i) (resolved_heights ori cs st w h d ! i)
        (zero_margins d),
      allocated (cs ! i)
        (child_x ori (resolved_widths ori cs st w h d) (zero_margins d) (x + xmargin d) i)
        (child_y ori (resolved_heights ori cs st w h d) (zero_margins d) (y + ymargin d) i)
        (resolved_widths ori cs st w h d ! i) (resolved_heights ori cs st w h d ! i)
        (zero_margins d))"
  by (simp add: stack_results_def place_results_def)

lemma length_stack_results [simp]: "length (stack_results ori cs st x y w h d) = length cs"
  by (simp add: stack_results_def)

lemma resolved_stretchy:
  assumes "i < length cs" and "length st = length cs" and "st ! i"
  shows "resolved_widths ori cs st w h d ! i =
           (if ori = horizontal then stretchy_share ori cs st w h d
            else inset_width ori (length cs) w d)"
    and "resolved_heights ori cs st w h d ! i =
           (if ori = horizontal then inset_height ori (length cs) h d
            else stretchy_share ori cs st w h d)"
  using assms by (simp_all add: resolved_widths_def resolved_heights_def)

lemma resolved_rigid:
  assumes "i < length cs" and "length st = length cs" and "\<not> st ! i"
  shows "resolved_widths ori cs st w h d ! i =
           (if ori = horizontal then fst (preferred (cs ! i) (zero_margins d))
            else inset_width ori (length cs) w d)"
    and "resolved_heights ori cs st w h d ! i =
           (if ori = horizontal then inset_height ori (length cs) h d
            else snd (preferred (cs ! i) (zero_margins d)))"
  using assms by (simp_all add: resolved_widths_def resolved_heights_def)

lemma share_of_two:
  assumes "length cs = 2" and "length st = 2" and "i < 2" and "st ! i" and "\<not> st ! (1 - i)"
    and "xmargin d = 0" and "ymargin d = 0" and "xpadding d = 0"
  shows "stretchy_share horizontal cs st w h d = w - fst (preferred (cs ! (1 - i)) d)"
proof -
  obtain a b where cs: "cs = [a, b]"
    using assms(1) by (auto simp: length_Suc_conv numeral_2_eq_2)
  obtain s t where st: "st = [s, t]"
    using assms(2) by (auto simp: length_Suc_conv numeral_2_eq_2)
  have z: "zero_margins d = d" using assms(6,7) by (rule zero_margins_idem)
  from assms(3) consider "i = 0" | "i = 1" by linarith
  then show ?thesis
  proof cases
    case 1
    with assms(4,5) show ?thesis
      by (simp add: cs st stretchy_share_def inset_width_def along_def z assms(6,8))
  next
    case 2
    with assms(4,5) show ?thesis
      by (simp add: cs st stretchy_share_def inset_width_def along_def z assms(6,8))
  qed
qed

section \<open>Lemmas on the positions of the controls\<close>

lemma rect_link_first [simp]: "map rect (link_first c as) = map rect as"
  by (cases as) (simp_all add: link_first_def rect_def)

lemma rect_linked: "map rect (linked rs) = concat (map (\<lambda>r. map rect (fst r)) rs)"
  by (induction rs rule: linked.induct) simp_all

lemma cursor_0 [simp]: "cursor start es pad 0 = start"
  by (simp add: cursor_def)

lemma cursor_Suc:
  "k < length es \<Longrightarrow> cursor start es pad (Suc k) = cursor start es pad k + (es ! k + pad)"
  by (simp add: cursor_def take_Suc_conv_app_nth add.assoc)

section \<open>Lemmas on the neighbour links\<close>

lemma length_link_first [simp]: "length (link_first c as) = length as"
  by (cases as) (simp_all add: link_first_def)

lemma length_linked: "length (linked rs) = sum_list (map (\<lambda>r. length (fst r)) rs)"
  by (induction rs rule: linked.induct) simp_all

lemma linked_split:
  "i < length rs \<Longrightarrow> fst (rs ! i) = [] \<Longrightarrow>
     linked rs = linked (take (Suc i) rs) @ linked (drop (Suc i) rs)"
proof (induction rs arbitrary: i rule: linked.induct)
  case 1
  then show ?case by simp
next
  case (2 as c)
  then show ?case by simp
next
  case (3 as c as' c' rs)
  show ?case
  proof (cases i)
    case 0
    with "3.prems" show ?thesis by simp
  next
    case (Suc j)
    with "3.prems" have "j < length ((as', c') # rs)" "fst (((as', c') # rs) ! j) = []"
      by simp_all
    from "3.IH" [OF this] Suc show ?thesis
      by (cases j) simp_all
  qed
qed

lemma linked_first_neighbor:
  "Suc i < length rs \<Longrightarrow> fst (rs ! i) \<noteq> [] \<Longrightarrow>
     linked rs ! sum_list (map (\<lambda>r. length (fst r)) (take i rs))
       = (hd (fst (rs ! i)))\<lparr>neighbor := Some (snd (rs ! Suc i))\<rparr>"
proof (induction rs arbitrary: i rule: linked.induct)
  case 1
  then show ?case by simp
next
  case (2 as c)
  then show ?case by simp
next
  case (3 as c as' c' rs)
  show ?case
  proof (cases i)
    case 0
    with "3.prems" show ?thesis
      by (cases as) (simp_all add: link_first_def)
  next
    case (Suc j)
    with "3.prems" have "Suc j < length ((as', c') # rs)" "fst (((as', c') # rs) ! j) \<noteq> []"
      by simp_all
    from "3.IH" [OF this] Suc show ?thesis
      by (simp add: nth_append)
  qed
qed

lemma length_allocations_of: "well_formed c \<Longrightarrow> length (allocations_of c x y w h d) = leaves c"
proof (induction c arbitrary: x y w h d)
  case (Widget p mk m)
  show ?case by (simp add: allocations_of_def)
next
  case (Stack cr ori cs st ws hs)
  show ?case
  proof (cases "cs = []")
    case True
    then show ?thesis by (simp add: allocations_of_def)
  next
    case False
    let ?rs = "stack_results ori cs st x y w h d"
    have each: "map (\<lambda>r. length (fst r)) ?rs = map leaves cs"
    proof (rule nth_equalityI)
      show "length (map (\<lambda>r. length (fst r)) ?rs) = length (map leaves cs)" by simp
    next
      fix k assume "k < length (map (\<lambda>r. length (fst r)) ?rs)"
      then have k: "k < length cs" by simp
      then have "cs ! k \<in> set cs" by simp
      moreover from Stack.prems have "well_formed (cs ! k)"
        using k by (simp add: list_all_length)
      ultimately show "map (\<lambda>r. length (fst r)) ?rs ! k = map leaves cs ! k"
        using k by (simp add: stack_results_nth Stack.IH)
    qed
    have "length (allocations_of (Stack cr ori cs st ws hs) x y w h d)
            = sum_list (map (\<lambda>r. length (fst r)) ?rs)"
      unfolding allocations_of_def allocate_stack_results [OF Stack.prems False]
      by (simp add: length_linked length_concat comp_def)
    then show ?thesis by (simp add: each)
  qed
qed

lemma stack_results_lengths:
  assumes "well_formed (Stack cr ori cs st ws hs)"
  shows "map (\<lambda>r. length (fst r)) (stack_results ori cs st x y w h d) = map leaves cs"
proof (rule nth_equalityI)
  show "length (map (\<lambda>r. length (fst r)) (stack_results ori cs st x y w h d))
          = length (map leaves cs)" by simp
next
  fix k assume "k < length (map (\<lambda>r. length (fst r)) (stack_results ori cs st x y w h d))"
  then have k: "k < length cs" by simp
  with assms have "well_formed (cs ! k)" by (simp add: list_all_length)
  then show "map (\<lambda>r. length (fst r)) (stack_results ori cs st x y w h d) ! k
               = map leaves cs ! k"
    using k by (simp add: stack_results_nth length_allocations_of)
qed

lemma allocated_empty_stack [simp]:
  "allocated (Stack cr ori [] st ws hs) x y w h d = Stack cr ori [] st ws hs"
  by (simp add: allocated_def)

section \<open>Lemmas on repeated calls\<close>

lemma preferredSize_loop_config:
  "\<forall>c\<in>set cs. \<forall>d. preferredSize (config c) d = preferredSize c d \<Longrightarrow>
     preferredSize_loop ori st d i (map config cs) acc = preferredSize_loop ori st d i cs acc"
  by (induction cs arbitrary: i acc) (simp_all split: sum.splits)

lemma preferredSize_config: "preferredSize (config c) d = preferredSize c d"
proof (induction c arbitrary: d)
  case (Widget p mk m)
  show ?case by simp
next
  case (Stack cr ori cs st ws hs)
  then have "\<forall>c\<in>set cs. \<forall>d. preferredSize (config c) d = preferredSize c d" by simp
  then show ?case by (simp add: preferredSize_loop_config)
qed

lemma preferredSize_same_config:
  "config c1 = config c2 \<Longrightarrow> preferredSize c1 d = preferredSize c2 d"
  using preferredSize_config [of c1 d] preferredSize_config [of c2 d] by simp

lemma preferred_same_config: "config c1 = config c2 \<Longrightarrow> preferred c1 d = preferred c2 d"
  by (simp add: preferred_def preferredSize_same_config [of c1 c2])

lemma stretchy_of_no_flags [simp]: "stretchy_of cs [] = []"
  by (simp add: stretchy_of_def)

lemma rigid_of_no_flags [simp]: "rigid_of cs [] = []"
  by (simp add: rigid_of_def)

lemma rigid_of_map:
  "map f (rigid_of cs st) = map fst (filter (\<lambda>p. \<not> snd p) (zip (map f cs) st))"
proof (induction cs arbitrary: st)
  case Nil
  show ?case by simp
next
  case (Cons c cs)
  then show ?case by (cases st) simp_all
qed

lemma length_stretchy_of: "length (stretchy_of cs st) = length (filter id (take (length cs) st))"
proof (induction cs arbitrary: st)
  case Nil
  show ?case by simp
next
  case (Cons c cs)
  then show ?case by (cases st) simp_all
qed

lemma resolved_same_config:
  assumes "map config cs1 = map config cs2"
  shows "resolved_widths ori cs1 st w h d = resolved_widths ori cs2 st w h d"
    and "resolved_heights ori cs1 st w h d = resolved_heights ori cs2 st w h d"
proof -
  from assms have len: "length cs1 = length cs2" by (rule map_eq_imp_length_eq)
  have each: "preferred (cs1 ! k) e = preferred (cs2 ! k) e" if "k < length cs1" for k e
  proof -
    from that len have "config (cs1 ! k) = config (cs2 ! k)"
      using arg_cong [OF assms, of "\<lambda>l. l ! k"] by simp
    then show ?thesis by (rule preferred_same_config)
  qed
  have pm: "map (\<lambda>c. f (preferred c e)) cs1 = map (\<lambda>c. f (preferred c e)) cs2" for f e
    using len each by (intro nth_equalityI) simp_all
  have share: "stretchy_share o' cs1 st w h d = stretchy_share o' cs2 st w h d" for o'
    unfolding stretchy_share_def rigid_of_map length_stretchy_of
    by (simp add: len pm)
  show "resolved_widths ori cs1 st w h d = resolved_widths ori cs2 st w h d"
    unfolding resolved_widths_def
    using len each by (intro nth_equalityI) (simp_all add: share)
  show "resolved_heights ori cs1 st w h d = resolved_heights ori cs2 st w h d"
    unfolding resolved_heights_def
    using len each by (intro nth_equalityI) (simp_all add: share)
qed

lemma allocate_same_config:
  "well_formed c1 \<Longrightarrow> well_formed c2 \<Longrightarrow> config c1 = config c2 \<Longrightarrow>
     allocate c1 x y w h d = allocate c2 x y w h d"
proof (induction c1 arbitrary: c2 x y w h d)
  case (Widget p mk m)
  then show ?case by (cases c2) simp_all
next
  case (Stack cr ori cs st ws hs)
  from Stack.prems(3) obtain cs2 ws2 hs2 where
    c2: "c2 = Stack cr ori cs2 st ws2 hs2" and cfg: "map config cs = map config cs2"
    by (cases c2) auto
  from cfg have len: "length cs = length cs2" by (rule map_eq_imp_length_eq)
  show ?case
  proof (cases "cs = []")
    case True
    with len Stack.prems(1,2) show ?thesis by (simp add: c2)
  next
    case False
    with len have ne2: "cs2 \<noteq> []" by auto
    have rw: "resolved_widths ori cs st w h d = resolved_widths ori cs2 st w h d"
      and rh: "resolved_heights ori cs st w h d = resolved_heights ori cs2 st w h d"
      using cfg by (rule resolved_same_config)+
    have kid: "allocate (cs ! k) x' y' w' h' d' = allocate (cs2 ! k) x' y' w' h' d'"
      if "k < length cs" for k x' y' w' h' d'
    proof -
      from that have "cs ! k \<in> set cs" by simp
      moreover from that Stack.prems(1) have "well_formed (cs ! k)" by (simp add: list_all_length)
      moreover from that len Stack.prems(2) have "well_formed (cs2 ! k)"
        by (simp add: c2 list_all_length)
      moreover from that len have "config (cs ! k) = config (cs2 ! k)"
        using arg_cong [OF cfg, of "\<lambda>l. l ! k"] by simp
      ultimately show ?thesis by (rule Stack.IH)
    qed
    have kid': "allocations_of (cs ! k) x' y' w' h' d' = allocations_of (cs2 ! k) x' y' w' h' d' \<and>
                allocated (cs ! k) x' y' w' h' d' = allocated (cs2 ! k) x' y' w' h' d'"
      if k: "k < length cs" for k x' y' w' h' d'
    proof -
      from k Stack.prems(1) have "well_formed (cs ! k)" by (simp add: list_all_length)
      from allocate_total [OF this, of x' y' w' h' d']
      obtain e1 where 1: "allocate (cs ! k) x' y' w' h' d' =
          Inr (allocations_of (cs ! k) x' y' w' h' d', allocated (cs ! k) x' y' w' h' d', e1)" ..
      from k len Stack.prems(2) have "well_formed (cs2 ! k)" by (simp add: c2 list_all_length)
      from allocate_total [OF this, of x' y' w' h' d']
      obtain e2 where 2: "allocate (cs2 ! k) x' y' w' h' d' =
          Inr (allocations_of (cs2 ! k) x' y' w' h' d', allocated (cs2 ! k) x' y' w' h' d', e2)" ..
      from 1 2 kid [OF k, of x' y' w' h' d'] show ?thesis by simp
    qed
    have rs: "stack_results ori cs st x y w h d = stack_results ori cs2 st x y w h d"
      unfolding stack_results_def place_results_def rw rh
      using len by (intro nth_equalityI) (simp_all add: kid')
    show ?thesis
      unfolding c2
        allocate_stack_results [OF Stack.prems(1) False]
        allocate_stack_results [OF Stack.prems(2) [unfolded c2] ne2] rs rw rh
      by (rule refl)
  qed
qed

lemma allocated_wf_config:
  "well_formed c \<Longrightarrow> well_formed (allocated c x y w h d) \<and> config (allocated c x y w h d) = config c"
proof (induction c arbitrary: x y w h d)
  case (Widget p mk m)
  show ?case by (simp add: allocated_def)
next
  case (Stack cr ori cs st ws hs)
  show ?case
  proof (cases "cs = []")
    case True
    with Stack.prems show ?thesis by simp
  next
    case False
    let ?rs = "stack_results ori cs st x y w h d"
    have kid: "well_formed (snd (?rs ! k)) \<and> config (snd (?rs ! k)) = config (cs ! k)"
      if "k < length cs" for k
    proof -
      from that have "cs ! k \<in> set cs" by simp
      moreover from that Stack.prems have "well_formed (cs ! k)" by (simp add: list_all_length)
      ultimately show ?thesis using that by (simp add: stack_results_nth Stack.IH)
    qed
    have cfg: "map config (map snd ?rs) = map config cs"
      using kid by (intro nth_equalityI) simp_all
    have wfs: "list_all well_formed (map snd ?rs)"
      using kid by (simp add: list_all_length)
    have a: "allocated (Stack cr ori cs st ws hs) x y w h d =
        Stack cr ori (map snd ?rs) st
          (resolved_widths ori cs st w h d) (resolved_heights ori cs st w h d)"
      unfolding allocated_def allocate_stack_results [OF Stack.prems False] by simp
    show ?thesis
      unfolding a using Stack.prems cfg wfs by simp
  qed
qed

section \<open>Lemmas on preferred extents that are not negative\<close>

lemma sint_max_from: "sint (max_from m xs) = Max (insert (sint m) (sint ` set xs))"
proof (induction xs arbitrary: m)
  case Nil
  show ?case by simp
next
  case (Cons x xs)
  have "Max (insert (max (sint m) (sint x)) (sint ` set xs))
          = Max (insert (sint m) (insert (sint x) (sint ` set xs)))"
    by (cases "set xs = {}") (simp_all add: max.assoc)
  then show ?case by (simp add: Cons.IH sint_max_int)
qed

lemma max_from_0_nonneg:
  assumes "xs \<noteq> []" and "\<forall>v\<in>set xs. 0 \<le>s v"
  shows "max_from 0 xs = signed_maximum xs"
proof -
  from assms(1) obtain v where v: "v \<in> set xs" by (cases xs) auto
  with assms(2) have "0 \<le> sint v" by (auto simp: word_sle_eq)
  moreover have "sint v \<le> Max (sint ` set xs)" using v by simp
  ultimately have "max 0 (Max (sint ` set xs)) = Max (sint ` set xs)" by simp
  moreover have "Max (insert 0 (sint ` set xs)) = max 0 (Max (sint ` set xs))"
    using assms(1) by simp
  ultimately have "sint (max_from 0 xs) = Max (sint ` set xs)"
    by (simp add: sint_max_from)
  then have "word_of_int (sint (max_from 0 xs)) = signed_maximum xs"
    by (simp only: signed_maximum_def)
  then show ?thesis by simp
qed

lemma set_stretchy_of: "set (stretchy_of cs st) \<subseteq> set cs"
  by (auto simp: stretchy_of_def dest: set_zip_leftD)

lemma floored_eq_specified:
  assumes "cs \<noteq> []"
    and "\<forall>c\<in>set cs. 0 \<le>s fst (preferred c d) \<and> 0 \<le>s snd (preferred c d)"
  shows "floored_preferredSize ori cs st d = specified_preferredSize ori cs st d"
proof -
  let ?along = "map (\<lambda>c. along ori (preferred c d)) (stretchy_of cs st)"
  let ?across = "map (\<lambda>c. across ori (preferred c d)) cs"
  have "max_from 0 ?across = signed_maximum ?across"
    using assms by (intro max_from_0_nonneg) (auto simp: across_def)
  moreover have "of_nat (length (stretchy_of cs st)) * max_from 0 ?along
      = (of_nat (length (stretchy_of cs st)) :: gint) * signed_maximum ?along"
  proof (cases "stretchy_of cs st = []")
    case True
    then show ?thesis by simp
  next
    case False
    have "max_from 0 ?along = signed_maximum ?along"
      using False assms(2) set_stretchy_of [of cs st]
      by (intro max_from_0_nonneg) (auto simp: along_def)
    then show ?thesis by simp
  qed
  ultimately show ?thesis
    by (simp add: floored_preferredSize_def specified_preferredSize_def)
qed

section \<open>Stacks without controls\<close>

text \<open>
  C7. A Stack with zero controls, whatever its other fields, and in particular the
  shared \<open>Space\<close> value: for every offered rectangle and sizing context,
  \<open>preferredSize\<close> returns \<open>(0, 0)\<close>, and \<open>allocate\<close> returns the empty list of
  allocations and leaves the sizing context (its margins included) and the Stack as
  they were.
\<close>

theorem empty_stack_is_inert:
  "preferredSize (Stack cr ori [] st ws hs) d = Inr (0, 0) \<and>
   allocate (Stack cr ori [] st ws hs) x y w h d = Inr ([], Stack cr ori [] st ws hs, d) \<and>
   controls Space = [] \<and>
   preferredSize Space d = Inr (0, 0) \<and>
   allocate Space x y w h d = Inr ([], Space, d)"
  by (simp add: Space_def space_def newStack_def)

theorem empty_stack_is_inert_witness:
  "preferredSize Space \<lparr>xmargin = 7, ymargin = 9, xpadding = 3, ypadding = 4\<rparr> = Inr (0, 0) \<and>
   allocate Space 1 2 300 200 \<lparr>xmargin = 7, ymargin = 9, xpadding = 3, ypadding = 4\<rparr>
     = Inr ([], Space, \<lparr>xmargin = 7, ymargin = 9, xpadding = 3, ypadding = 4\<rparr>)"
  using empty_stack_is_inert
          [of False horizontal "[]" "[]" "[]"
              "\<lparr>xmargin = 7, ymargin = 9, xpadding = 3, ypadding = 4\<rparr>" 1 2 300 200]
  by simp

section \<open>Configuration and realization\<close>

text \<open>
  C4. On a Stack that satisfies the invariant of the data model, \<open>SetStretchy\<close>
  panics when the index is \<open>len(controls)\<close> or negative; it panics when the Stack has
  been created, whatever the index, and so after a \<open>make\<close> that returned no error;
  before that, with an index in \<open>[0, len(controls))\<close>, it returns normally, having set
  the flag at the index and nothing else.
\<close>

theorem SetStretchy_panics_or_sets:
  assumes "well_formed (Stack cr ori cs st ws hs)"
  shows
    "(index = of_nat (length cs) \<or> index <s 0 \<longrightarrow>
        (\<exists>p. SetStretchy (Stack cr ori cs st ws hs) index = Inl p)) \<and>
     (cr \<longrightarrow> SetStretchy (Stack cr ori cs st ws hs) index = Inl SetStretchyAfterCreated) \<and>
     (fst (make (Stack cr ori cs st ws hs) window) = None \<longrightarrow>
        SetStretchy (snd (make (Stack cr ori cs st ws hs) window)) index
          = Inl SetStretchyAfterCreated) \<and>
     (\<not> cr \<and> 0 \<le> sint index \<and> sint index < int (length cs) \<longrightarrow>
        SetStretchy (Stack cr ori cs st ws hs) index
          = Inr (Stack cr ori cs (st[nat (sint index) := True]) ws hs) \<and>
        st[nat (sint index) := True] ! nat (sint index))"
  using assms
  by (auto simp: word_sless_alt sint_of_nat_len split: prod.splits option.splits)

theorem SetStretchy_panics_or_sets_witness:
  "well_formed (NewHorizontalStack [leaf 10 5, leaf 20 7]) \<and>
   SetStretchy (NewHorizontalStack [leaf 10 5, leaf 20 7]) 2 = Inl RuntimeIndexOutOfRange \<and>
   SetStretchy (NewHorizontalStack [leaf 10 5, leaf 20 7]) (- 1) = Inl (SetStretchyIndex (- 1)) \<and>
   fst (make (NewHorizontalStack [leaf 10 5, leaf 20 7]) 0) = None \<and>
   SetStretchy (snd (make (NewHorizontalStack [leaf 10 5, leaf 20 7]) 0)) 1
     = Inl SetStretchyAfterCreated \<and>
   SetStretchy (NewHorizontalStack [leaf 10 5, leaf 20 7]) 1
     = Inr (Stack False horizontal [leaf 10 5, leaf 20 7] [False, True] [0, 0] [0, 0])"
  using
    SetStretchy_panics_or_sets
      [of False horizontal "[leaf 10 5, leaf 20 7]" "[False, False]" "[0, 0]" "[0, 0]" 2 0]
    SetStretchy_panics_or_sets
      [of False horizontal "[leaf 10 5, leaf 20 7]" "[False, False]" "[0, 0]" "[0, 0]" "- 1" 0]
    SetStretchy_panics_or_sets
      [of False horizontal "[leaf 10 5, leaf 20 7]" "[False, False]" "[0, 0]" "[0, 0]" 1 0]
  by (simp add: NewHorizontalStack_def newStack_def word_sless_alt)



section \<open>Preferred size of a Stack\<close>

text \<open>
  C2. For every Stack of at least one control that satisfies the invariant of the
  data model and whose controls report no negative preferred extent, \<open>preferredSize\<close>
  returns, along the stack, \<open>(N - 1) * padding\<close> plus the sum of the preferred extents
  of the non-stretchy controls plus the number of stretchy controls times the maximum
  preferred extent among the stretchy controls, and across the stack the maximum
  preferred extent over all controls, stretchy or not.
\<close>

theorem preferredSize_sum_and_maximum:
  assumes "well_formed (Stack cr ori cs st ws hs)" and "cs \<noteq> []"
    and "\<forall>c\<in>set cs. 0 \<le>s fst (preferred c d) \<and> 0 \<le>s snd (preferred c d)"
  shows
    "preferredSize (Stack cr ori cs st ws hs) d = Inr (specified_preferredSize ori cs st d) \<and>
     specified_preferredSize ori cs st d =
       (if ori = horizontal
        then ((of_nat (length cs) - 1) * xpadding d
              + sum_list (map (\<lambda>c. fst (preferred c d)) (rigid_of cs st))
              + of_nat (length (stretchy_of cs st))
                * word_of_int (Max (sint ` set (map (\<lambda>c. fst (preferred c d)) (stretchy_of cs st)))),
              word_of_int (Max (sint ` set (map (\<lambda>c. snd (preferred c d)) cs))))
        else (word_of_int (Max (sint ` set (map (\<lambda>c. fst (preferred c d)) cs))),
              (of_nat (length cs) - 1) * ypadding d
              + sum_list (map (\<lambda>c. snd (preferred c d)) (rigid_of cs st))
              + of_nat (length (stretchy_of cs st))
                * word_of_int (Max (sint ` set (map (\<lambda>c. snd (preferred c d)) (stretchy_of cs st))))))"
proof
  show "preferredSize (Stack cr ori cs st ws hs) d = Inr (specified_preferredSize ori cs st d)"
    using assms
    by (simp add: preferredSize_stack floored_eq_specified del: preferredSize.simps)
  show "specified_preferredSize ori cs st d =
       (if ori = horizontal
        then ((of_nat (length cs) - 1) * xpadding d
              + sum_list (map (\<lambda>c. fst (preferred c d)) (rigid_of cs st))
              + of_nat (length (stretchy_of cs st))
                * word_of_int (Max (sint ` set (map (\<lambda>c. fst (preferred c d)) (stretchy_of cs st)))),
              word_of_int (Max (sint ` set (map (\<lambda>c. snd (preferred c d)) cs))))
        else (word_of_int (Max (sint ` set (map (\<lambda>c. fst (preferred c d)) cs))),
              (of_nat (length cs) - 1) * ypadding d
              + sum_list (map (\<lambda>c. snd (preferred c d)) (rigid_of cs st))
              + of_nat (length (stretchy_of cs st))
                * word_of_int (Max (sint ` set (map (\<lambda>c. snd (preferred c d)) (stretchy_of cs st))))))"
    by (simp add: specified_preferredSize_def signed_maximum_def along_def across_def
          padding_def)
qed

theorem preferredSize_sum_and_maximum_witness:
  "well_formed (Stack False horizontal [leaf 10 5, leaf 30 9, leaf 20 6, leaf 8 7]
         [False, True, True, False] [0, 0, 0, 0] [0, 0, 0, 0]) \<and>
   preferredSize
     (Stack False horizontal [leaf 10 5, leaf 30 9, leaf 20 6, leaf 8 7]
        [False, True, True, False] [0, 0, 0, 0] [0, 0, 0, 0])
     \<lparr>xmargin = 4, ymargin = 4, xpadding = 2, ypadding = 3\<rparr> = Inr (84, 9) \<and>
   preferredSize
     (Stack False vertical [leaf 10 5, leaf 30 9, leaf 20 6, leaf 8 7]
        [False, True, True, False] [0, 0, 0, 0] [0, 0, 0, 0])
     \<lparr>xmargin = 4, ymargin = 4, xpadding = 2, ypadding = 3\<rparr> = Inr (30, 39)"
  using
    preferredSize_sum_and_maximum
      [of False horizontal "[leaf 10 5, leaf 30 9, leaf 20 6, leaf 8 7]"
          "[False, True, True, False]" "[0, 0, 0, 0]" "[0, 0, 0, 0]"
          "\<lparr>xmargin = 4, ymargin = 4, xpadding = 2, ypadding = 3\<rparr>"]
    preferredSize_sum_and_maximum
      [of False vertical "[leaf 10 5, leaf 30 9, leaf 20 6, leaf 8 7]"
          "[False, True, True, False]" "[0, 0, 0, 0]" "[0, 0, 0, 0]"
          "\<lparr>xmargin = 4, ymargin = 4, xpadding = 2, ypadding = 3\<rparr>"]
  by (simp add: preferredSize_step_def max_int_def word_sless_alt preferred_def word_sle_eq
        specified_preferredSize_def signed_maximum_def along_def across_def padding_def)

section \<open>The share of the stretchy controls\<close>

text \<open>
  C1. A Stack that satisfies the invariant of the data model and has a stretchy
  control \<open>i\<close> is allocated without panic. The offered rectangle is inset by twice the
  margin on each axis and by \<open>(N - 1) * padding\<close> along the stack; what remains along
  the stack after the preferred extents of the non-stretchy controls is divided, as a
  signed integer, by the number of stretchy controls, the quotient truncated towards
  zero (\<open>sdiv\<close> on the integers). Control \<open>i\<close> is allocated with that quotient as its
  extent along the stack and with the whole inset extent across it. In particular, in a horizontal Stack of two controls of
  which only \<open>i\<close> is stretchy, with zero margins and padding, control \<open>i\<close> is allocated
  the offered width less the preferred width of the other control.
\<close>

theorem stretchy_controls_share:
  assumes "well_formed (Stack cr ori cs st ws hs)" and "i < length cs" and "st ! i"
  shows
    "allocate (Stack cr ori cs st ws hs) x y w h d =
       Inr (if ori = horizontal then linked (stack_results ori cs st x y w h d)
            else concat (map fst (stack_results ori cs st x y w h d)),
            Stack cr ori (map snd (stack_results ori cs st x y w h d)) st
              (resolved_widths ori cs st w h d) (resolved_heights ori cs st w h d),
            zero_margins d) \<and>
     fst (stack_results ori cs st x y w h d ! i) =
       allocations_of (cs ! i)
         (child_x ori (resolved_widths ori cs st w h d) (zero_margins d) (x + xmargin d) i)
         (child_y ori (resolved_heights ori cs st w h d) (zero_margins d) (y + ymargin d) i)
         (resolved_widths ori cs st w h d ! i) (resolved_heights ori cs st w h d ! i)
         (zero_margins d) \<and>
     resolved_widths ori cs st w h d ! i =
       (if ori = horizontal then stretchy_share ori cs st w h d
        else inset_width ori (length cs) w d) \<and>
     resolved_heights ori cs st w h d ! i =
       (if ori = horizontal then inset_height ori (length cs) h d
        else stretchy_share ori cs st w h d) \<and>
     stretchy_share ori cs st w h d =
       word_of_int
         (sint ((if ori = horizontal
                 then w - xmargin d * 2 - (of_nat (length cs) - 1) * xpadding d
                 else h - ymargin d * 2 - (of_nat (length cs) - 1) * ypadding d)
                - sum_list (map (\<lambda>c. along ori (preferred c (zero_margins d)))
                             (rigid_of cs st)))
          sdiv int (length (stretchy_of cs st))) \<and>
     (ori = horizontal \<and> length cs = 2 \<and> \<not> st ! (1 - i) \<and>
      xmargin d = 0 \<and> ymargin d = 0 \<and> xpadding d = 0 \<longrightarrow>
        resolved_widths ori cs st w h d ! i = w - fst (preferred (cs ! (1 - i)) d))"
proof -
  from assms(1) have len: "length st = length cs" by simp
  from assms(2) have ne: "cs \<noteq> []" by auto
  have two: "resolved_widths ori cs st w h d ! i = w - fst (preferred (cs ! (1 - i)) d)"
    if "ori = horizontal \<and> length cs = 2 \<and> \<not> st ! (1 - i) \<and>
        xmargin d = 0 \<and> ymargin d = 0 \<and> xpadding d = 0"
    using that assms(2,3) len
    by (simp add: resolved_stretchy(1) [OF assms(2) len assms(3)] share_of_two [of cs st i])
  show ?thesis
    using allocate_stack_results [OF assms(1) ne, of x y w h d]
      stack_results_nth [OF assms(2), of ori st x y w h d]
      resolved_stretchy [OF assms(2) len assms(3), of ori w h d] two
    by (simp add: stretchy_share_def inset_width_def inset_height_def)
qed

theorem stretchy_controls_share_witness:
  "well_formed (Stack False horizontal [leaf 40 5, leaf 7 7, leaf 9 9] [False, True, True]
                  [0, 0, 0] [0, 0, 0]) \<and>
   allocate (Stack False horizontal [leaf 40 5, leaf 7 7, leaf 9 9] [False, True, True]
               [0, 0, 0] [0, 0, 0]) 0 0 101 20 no_margins =
     Inr ([\<lparr>alloc_x = 0, alloc_y = 0, alloc_width = 40, alloc_height = 20,
             neighbor = Some (leaf 7 7)\<rparr>,
           \<lparr>alloc_x = 40, alloc_y = 0, alloc_width = 30, alloc_height = 20,
             neighbor = Some (leaf 9 9)\<rparr>,
           \<lparr>alloc_x = 70, alloc_y = 0, alloc_width = 30, alloc_height = 20,
             neighbor = None\<rparr>],
          Stack False horizontal [leaf 40 5, leaf 7 7, leaf 9 9] [False, True, True]
            [40, 30, 30] [20, 20, 20],
          no_margins) \<and>
   stretchy_share horizontal [leaf 40 5, leaf 7 7, leaf 9 9] [False, True, True] 101 20
     no_margins = 30 \<and>
   resolved_widths horizontal [leaf 40 5, leaf 7 7, leaf 9 9] [False, True, True] 35 20
     no_margins ! 1 = - 2 \<and>
   resolved_widths horizontal [leaf 40 5, leaf 7 7] [False, True] 100 20 no_margins ! 1 = 60"
  using
    stretchy_controls_share
      [of False horizontal "[leaf 40 5, leaf 7 7, leaf 9 9]" "[False, True, True]"
          "[0, 0, 0]" "[0, 0, 0]" 1 0 0 101 20 no_margins]
    stretchy_controls_share
      [of False horizontal "[leaf 40 5, leaf 7 7, leaf 9 9]" "[False, True, True]"
          "[0, 0, 0]" "[0, 0, 0]" 1 0 0 35 20 no_margins]
    stretchy_controls_share
      [of False horizontal "[leaf 40 5, leaf 7 7]" "[False, True]" "[0, 0]" "[0, 0]" 1
          0 0 100 20 no_margins]
  by (simp add: stack_results_def place_results_def resolved_widths_def
        resolved_heights_def stretchy_share_def inset_width_def inset_height_def
        zero_margins_def preferred_def along_def allocations_of_def allocated_def
        child_x_def child_y_def cursor_def link_first_def signed_divide_int_def
        del: allocate.simps(2))

section \<open>Placement of the controls\<close>

text \<open>
  C8. A Stack of at least one control that satisfies the invariant of the
  data model is allocated without panic, and the allocations are those of its
  controls, in order, each control \<open>k\<close> being allocated its resolved extents at the
  cursor. The cursor starts at the inset origin and advances along the stack, past
  control \<open>k\<close>, by the resolved extent of \<open>k\<close> plus one padding; across the stack it
  stays. Concretely, for a horizontal Stack of controls of preferred sizes \<open>(10, a)\<close>,
  \<open>(20, b)\<close> and \<open>(30, c)\<close>, none stretchy, with zero margins and padding,
  and with heights \<open>a\<close>, \<open>b\<close> and \<open>c\<close> that are not negative, \<open>preferredSize\<close> returns the
  width \<open>60\<close> and as height the maximum of \<open>a\<close>, \<open>b\<close> and \<open>c\<close>; and, whatever the
  heights, \<open>allocate(0, 0, 60, H)\<close> gives the controls the x-offsets \<open>0\<close>, \<open>10\<close>, \<open>30\<close>,
  the widths \<open>10\<close>, \<open>20\<close>, \<open>30\<close> and the height \<open>H\<close>.
\<close>

theorem controls_placed_at_cursor:
  assumes "well_formed (Stack cr ori cs st ws hs)" and "cs \<noteq> []"
  shows
    "(\<exists>as s'. allocate (Stack cr ori cs st ws hs) x y w h d = Inr (as, s', zero_margins d) \<and>
        map rect as = concat (map (\<lambda>r. map rect (fst r)) (stack_results ori cs st x y w h d)) \<and>
        width s' = resolved_widths ori cs st w h d \<and>
        height s' = resolved_heights ori cs st w h d) \<and>
     (\<forall>k<length cs.
        fst (stack_results ori cs st x y w h d ! k) =
          allocations_of (cs ! k)
            (child_x ori (resolved_widths ori cs st w h d) (zero_margins d) (x + xmargin d) k)
            (child_y ori (resolved_heights ori cs st w h d) (zero_margins d) (y + ymargin d) k)
            (resolved_widths ori cs st w h d ! k) (resolved_heights ori cs st w h d ! k)
            (zero_margins d)) \<and>
     child_x ori (resolved_widths ori cs st w h d) (zero_margins d) (x + xmargin d) 0
       = x + xmargin d \<and>
     child_y ori (resolved_heights ori cs st w h d) (zero_margins d) (y + ymargin d) 0
       = y + ymargin d \<and>
     (\<forall>k. Suc k < length cs \<longrightarrow>
        child_x ori (resolved_widths ori cs st w h d) (zero_margins d) (x + xmargin d) (Suc k) =
          (if ori = horizontal
           then child_x ori (resolved_widths ori cs st w h d) (zero_margins d) (x + xmargin d) k
                + (resolved_widths ori cs st w h d ! k + xpadding d)
           else x + xmargin d) \<and>
        child_y ori (resolved_heights ori cs st w h d) (zero_margins d) (y + ymargin d) (Suc k) =
          (if ori = horizontal then y + ymargin d
           else child_y ori (resolved_heights ori cs st w h d) (zero_margins d) (y + ymargin d) k
                + (resolved_heights ori cs st w h d ! k + ypadding d))) \<and>
     (0 \<le>s a \<and> 0 \<le>s b \<and> 0 \<le>s c \<longrightarrow>
        preferredSize (NewHorizontalStack [leaf 10 a, leaf 20 b, leaf 30 c]) no_margins
          = Inr (60, signed_maximum [a, b, c])) \<and>
     allocate (NewHorizontalStack [leaf 10 a, leaf 20 b, leaf 30 c]) 0 0 60 H no_margins
       = Inr ([\<lparr>alloc_x = 0, alloc_y = 0, alloc_width = 10, alloc_height = H,
                 neighbor = Some (leaf 20 b)\<rparr>,
               \<lparr>alloc_x = 10, alloc_y = 0, alloc_width = 20, alloc_height = H,
                 neighbor = Some (leaf 30 c)\<rparr>,
               \<lparr>alloc_x = 30, alloc_y = 0, alloc_width = 30, alloc_height = H,
                 neighbor = None\<rparr>],
              Stack False horizontal [leaf 10 a, leaf 20 b, leaf 30 c] [False, False, False]
                [10, 20, 30] [H, H, H],
              no_margins)"
proof (intro conjI)
  from assms(1) have len: "length st = length cs" by simp
  show "\<exists>as s'. allocate (Stack cr ori cs st ws hs) x y w h d = Inr (as, s', zero_margins d) \<and>
        map rect as = concat (map (\<lambda>r. map rect (fst r)) (stack_results ori cs st x y w h d)) \<and>
        width s' = resolved_widths ori cs st w h d \<and>
        height s' = resolved_heights ori cs st w h d"
    unfolding allocate_stack_results [OF assms]
    by (cases ori) (simp_all add: rect_linked map_concat comp_def)
  show "\<forall>k<length cs.
        fst (stack_results ori cs st x y w h d ! k) =
          allocations_of (cs ! k)
            (child_x ori (resolved_widths ori cs st w h d) (zero_margins d) (x + xmargin d) k)
            (child_y ori (resolved_heights ori cs st w h d) (zero_margins d) (y + ymargin d) k)
            (resolved_widths ori cs st w h d ! k) (resolved_heights ori cs st w h d ! k)
            (zero_margins d)"
    by (simp add: stack_results_nth)
  show "child_x ori (resolved_widths ori cs st w h d) (zero_margins d) (x + xmargin d) 0
       = x + xmargin d"
    by (simp add: child_x_def)
  show "child_y ori (resolved_heights ori cs st w h d) (zero_margins d) (y + ymargin d) 0
       = y + ymargin d"
    by (simp add: child_y_def)
  show "\<forall>k. Suc k < length cs \<longrightarrow>
        child_x ori (resolved_widths ori cs st w h d) (zero_margins d) (x + xmargin d) (Suc k) =
          (if ori = horizontal
           then child_x ori (resolved_widths ori cs st w h d) (zero_margins d) (x + xmargin d) k
                + (resolved_widths ori cs st w h d ! k + xpadding d)
           else x + xmargin d) \<and>
        child_y ori (resolved_heights ori cs st w h d) (zero_margins d) (y + ymargin d) (Suc k) =
          (if ori = horizontal then y + ymargin d
           else child_y ori (resolved_heights ori cs st w h d) (zero_margins d) (y + ymargin d) k
                + (resolved_heights ori cs st w h d ! k + ypadding d))"
    using len by (simp add: child_x_def child_y_def cursor_Suc)
  have p: "preferredSize (NewHorizontalStack [leaf 10 a, leaf 20 b, leaf 30 c]) no_margins
       = Inr (60, max_from 0 [a, b, c])"
    by (simp add: NewHorizontalStack_def newStack_def preferredSize_step_def)
  have "max_from 0 [a, b, c] = signed_maximum [a, b, c]" if "0 \<le>s a \<and> 0 \<le>s b \<and> 0 \<le>s c"
    using that by (intro max_from_0_nonneg) auto
  with p show "0 \<le>s a \<and> 0 \<le>s b \<and> 0 \<le>s c \<longrightarrow>
        preferredSize (NewHorizontalStack [leaf 10 a, leaf 20 b, leaf 30 c]) no_margins
          = Inr (60, signed_maximum [a, b, c])"
    by (simp del: preferredSize.simps)
  have wf3: "well_formed (Stack False horizontal [leaf 10 a, leaf 20 b, leaf 30 c]
                   [False, False, False] [0, 0, 0] [0, 0, 0])"
    by simp
  show "allocate (NewHorizontalStack [leaf 10 a, leaf 20 b, leaf 30 c]) 0 0 60 H no_margins
       = Inr ([\<lparr>alloc_x = 0, alloc_y = 0, alloc_width = 10, alloc_height = H,
                 neighbor = Some (leaf 20 b)\<rparr>,
               \<lparr>alloc_x = 10, alloc_y = 0, alloc_width = 20, alloc_height = H,
                 neighbor = Some (leaf 30 c)\<rparr>,
               \<lparr>alloc_x = 30, alloc_y = 0, alloc_width = 30, alloc_height = H,
                 neighbor = None\<rparr>],
              Stack False horizontal [leaf 10 a, leaf 20 b, leaf 30 c] [False, False, False]
                [10, 20, 30] [H, H, H],
              no_margins)"
    by (simp add: NewHorizontalStack_def newStack_def Let_def set_neighbor_def)
qed

theorem controls_placed_at_cursor_witness:
  "well_formed (Stack False vertical [leaf 10 5, leaf 20 7] [False, False] [0, 0] [0, 0]) \<and>
   allocate (Stack False vertical [leaf 10 5, leaf 20 7] [False, False] [0, 0] [0, 0])
       1 2 50 40 \<lparr>xmargin = 3, ymargin = 4, xpadding = 5, ypadding = 6\<rparr> =
     Inr ([\<lparr>alloc_x = 4, alloc_y = 6, alloc_width = 44, alloc_height = 5, neighbor = None\<rparr>,
           \<lparr>alloc_x = 4, alloc_y = 17, alloc_width = 44, alloc_height = 7, neighbor = None\<rparr>],
          Stack False vertical [leaf 10 5, leaf 20 7] [False, False] [44, 44] [5, 7],
          \<lparr>xmargin = 0, ymargin = 0, xpadding = 5, ypadding = 6\<rparr>) \<and>
   child_y vertical [5, 7] \<lparr>xmargin = 0, ymargin = 0, xpadding = 5, ypadding = 6\<rparr> 6 1 = 17 \<and>
   preferredSize (NewHorizontalStack [leaf 10 9, leaf 20 5, leaf 30 7]) no_margins
     = Inr (60, 9) \<and>
   allocate (NewHorizontalStack [leaf 10 9, leaf 20 5, leaf 30 7]) 0 0 60 11 no_margins
     = Inr ([\<lparr>alloc_x = 0, alloc_y = 0, alloc_width = 10, alloc_height = 11,
               neighbor = Some (leaf 20 5)\<rparr>,
             \<lparr>alloc_x = 10, alloc_y = 0, alloc_width = 20, alloc_height = 11,
               neighbor = Some (leaf 30 7)\<rparr>,
             \<lparr>alloc_x = 30, alloc_y = 0, alloc_width = 30, alloc_height = 11,
               neighbor = None\<rparr>],
            Stack False horizontal [leaf 10 9, leaf 20 5, leaf 30 7] [False, False, False]
              [10, 20, 30] [11, 11, 11],
            no_margins)"
  using
    controls_placed_at_cursor
      [of False vertical "[leaf 10 5, leaf 20 7]" "[False, False]" "[0, 0]" "[0, 0]"
          1 2 50 40 "\<lparr>xmargin = 3, ymargin = 4, xpadding = 5, ypadding = 6\<rparr>" 9 5 7 11]
  by (simp add: stack_results_def place_results_def resolved_widths_def
        resolved_heights_def inset_width_def inset_height_def zero_margins_def
        preferred_def allocations_of_def allocated_def child_x_def child_y_def cursor_def
        signed_maximum_def word_sle_eq)

section \<open>Neighbour links\<close>

text \<open>
  C6. A vertical Stack (satisfying the invariant of the data model) returns the
  allocations of its controls exactly as the controls returned them: it sets no
  \<open>neighbor\<close>. In the loop of a horizontal Stack, a control that returns no allocations
  leaves \<open>current\<close> nil, and with \<open>current\<close> nil the next control is placed without any
  allocation being touched. So where control \<open>i\<close> of a horizontal Stack returns no
  allocations, the allocations of the Stack are those of the controls up to \<open>i\<close>, linked
  among themselves, followed by those of the controls after \<open>i\<close>, linked among
  themselves: no link goes across the gap.
\<close>

theorem neighbor_links_stop_at_gap:
  assumes "well_formed (Stack cr ori cs st ws hs)" and "cs \<noteq> []"
  shows
    "(ori = vertical \<longrightarrow>
        allocate (Stack cr ori cs st ws hs) x y w h d =
          Inr (concat (map fst (stack_results ori cs st x y w h d)),
               Stack cr ori (map snd (stack_results ori cs st x y w h d)) st
                 (resolved_widths ori cs st w h d) (resolved_heights ori cs st w h d),
               zero_margins d)) \<and>
     (ori = horizontal \<longrightarrow>
        allocate (Stack cr ori cs st ws hs) x y w h d =
          Inr (linked (stack_results ori cs st x y w h d),
               Stack cr ori (map snd (stack_results ori cs st x y w h d)) st
                 (resolved_widths ori cs st w h d) (resolved_heights ori cs st w h d),
               zero_margins d)) \<and>
     (ori = horizontal \<and> i < length cs \<and> leaves (cs ! i) = 0 \<longrightarrow>
        linked (stack_results ori cs st x y w h d) =
          linked (take (Suc i) (stack_results ori cs st x y w h d))
          @ linked (drop (Suc i) (stack_results ori cs st x y w h d))) \<and>
     (k < length ews \<and> k < length ehs \<and>
      allocate c cx cy (ews ! k) (ehs ! k) e = Inr ([], c', e') \<longrightarrow>
        allocate_place horizontal ews ehs k (c # rest) (cx, cy, e, allocations, current) placed =
          allocate_place horizontal ews ehs (k + 1) rest
            (cx + (ews ! k + xpadding e'), cy, e', set_neighbor current c' allocations, None)
            (placed @ [c'])) \<and>
     (k < length ews \<and> k < length ehs \<and>
      allocate c cx cy (ews ! k) (ehs ! k) e = Inr (as, c', e') \<longrightarrow>
        allocate_place horizontal ews ehs k (c # rest) (cx, cy, e, allocations, None) placed =
          allocate_place horizontal ews ehs (k + 1) rest
            (cx + (ews ! k + xpadding e'), cy, e', allocations @ as,
             if length as \<noteq> 0 then Some (length allocations) else None)
            (placed @ [c']))"
proof (intro conjI impI)
  assume "ori = vertical"
  then show "allocate (Stack cr ori cs st ws hs) x y w h d =
          Inr (concat (map fst (stack_results ori cs st x y w h d)),
               Stack cr ori (map snd (stack_results ori cs st x y w h d)) st
                 (resolved_widths ori cs st w h d) (resolved_heights ori cs st w h d),
               zero_margins d)"
    using allocate_stack_results [OF assms, of x y w h d] by (simp del: allocate.simps)
next
  assume "ori = horizontal"
  then show "allocate (Stack cr ori cs st ws hs) x y w h d =
          Inr (linked (stack_results ori cs st x y w h d),
               Stack cr ori (map snd (stack_results ori cs st x y w h d)) st
                 (resolved_widths ori cs st w h d) (resolved_heights ori cs st w h d),
               zero_margins d)"
    using allocate_stack_results [OF assms, of x y w h d] by (simp del: allocate.simps)
next
  assume a: "ori = horizontal \<and> i < length cs \<and> leaves (cs ! i) = 0"
  then have i: "i < length (stack_results ori cs st x y w h d)" by simp
  from a assms(1) have "well_formed (cs ! i)" by (simp add: list_all_length)
  then have "fst (stack_results ori cs st x y w h d ! i) = []"
    using a by (simp add: stack_results_nth length_allocations_of flip: length_0_conv)
  with i show "linked (stack_results ori cs st x y w h d) =
          linked (take (Suc i) (stack_results ori cs st x y w h d))
          @ linked (drop (Suc i) (stack_results ori cs st x y w h d))"
    by (rule linked_split)
next
  assume "k < length ews \<and> k < length ehs \<and>
      allocate c cx cy (ews ! k) (ehs ! k) e = Inr ([], c', e')"
  then show "allocate_place horizontal ews ehs k (c # rest) (cx, cy, e, allocations, current) placed =
          allocate_place horizontal ews ehs (k + 1) rest
            (cx + (ews ! k + xpadding e'), cy, e', set_neighbor current c' allocations, None)
            (placed @ [c'])"
    by simp
next
  assume "k < length ews \<and> k < length ehs \<and>
      allocate c cx cy (ews ! k) (ehs ! k) e = Inr (as, c', e')"
  then show "allocate_place horizontal ews ehs k (c # rest) (cx, cy, e, allocations, None) placed =
          allocate_place horizontal ews ehs (k + 1) rest
            (cx + (ews ! k + xpadding e'), cy, e', allocations @ as,
             if length as \<noteq> 0 then Some (length allocations) else None)
            (placed @ [c'])"
    by simp
qed

theorem neighbor_links_stop_at_gap_witness:
  "well_formed (Stack False horizontal [leaf 10 5, Space, leaf 20 7] [False, False, False]
         [0, 0, 0] [0, 0, 0]) \<and>
   leaves ([leaf 10 5, Space, leaf 20 7] ! 1) = 0 \<and>
   allocate (Stack False horizontal [leaf 10 5, Space, leaf 20 7] [False, False, False]
               [0, 0, 0] [0, 0, 0]) 0 0 30 9 no_margins =
     Inr ([\<lparr>alloc_x = 0, alloc_y = 0, alloc_width = 10, alloc_height = 9,
             neighbor = Some Space\<rparr>,
           \<lparr>alloc_x = 10, alloc_y = 0, alloc_width = 20, alloc_height = 9,
             neighbor = None\<rparr>],
          Stack False horizontal [leaf 10 5, Space, leaf 20 7] [False, False, False]
            [10, 0, 20] [9, 9, 9],
          no_margins) \<and>
   well_formed (Stack False vertical [leaf 10 5, leaf 20 7] [False, False] [0, 0] [0, 0]) \<and>
   allocate (Stack False vertical [leaf 10 5, leaf 20 7] [False, False] [0, 0] [0, 0])
       0 0 30 12 no_margins =
     Inr ([\<lparr>alloc_x = 0, alloc_y = 0, alloc_width = 30, alloc_height = 5, neighbor = None\<rparr>,
           \<lparr>alloc_x = 0, alloc_y = 5, alloc_width = 30, alloc_height = 7, neighbor = None\<rparr>],
          Stack False vertical [leaf 10 5, leaf 20 7] [False, False] [30, 30] [5, 7],
          no_margins)"
  using
    neighbor_links_stop_at_gap
      [of False horizontal "[leaf 10 5, Space, leaf 20 7]" "[False, False, False]"
          "[0, 0, 0]" "[0, 0, 0]" 0 0 30 9 no_margins 1
          0 "[]" "[]" Space 0 0 no_margins Space no_margins "[]" "[]" None "[]" "[]"]
    neighbor_links_stop_at_gap
      [of False vertical "[leaf 10 5, leaf 20 7]" "[False, False]"
          "[0, 0]" "[0, 0]" 0 0 30 12 no_margins 0
          0 "[]" "[]" Space 0 0 no_margins Space no_margins "[]" "[]" None "[]" "[]"]
  by (simp add: Space_def space_def newStack_def stack_results_def place_results_def
        resolved_widths_def resolved_heights_def inset_width_def inset_height_def
        zero_margins_def preferred_def allocations_of_def allocated_def child_x_def
        child_y_def cursor_def link_first_def)

text \<open>
  C10. In a horizontal Stack (satisfying the invariant of the data model), where
  control \<open>i\<close> returns at least one allocation and a control \<open>i + 1\<close> follows, the
  first allocation of control \<open>i\<close> is, in the allocations of the Stack, the one control
  \<open>i\<close> returned with its \<open>neighbor\<close> set to control \<open>i + 1\<close> itself, as the \<open>allocate\<close> of
  that control has left it, whether or not control \<open>i + 1\<close> returns allocations; when
  control \<open>i + 1\<close> is a \<open>Space\<close>, the neighbour is that \<open>Space\<close>.
\<close>

theorem neighbor_is_next_control:
  assumes "well_formed (Stack cr horizontal cs st ws hs)" and "Suc i < length cs"
    and "0 < leaves (cs ! i)"
  shows
    "\<exists>as s'.
       allocate (Stack cr horizontal cs st ws hs) x y w h d = Inr (as, s', zero_margins d) \<and>
       length as = sum_list (map leaves cs) \<and>
       as ! sum_list (map leaves (take i cs))
         = (hd (fst (stack_results horizontal cs st x y w h d ! i)))
             \<lparr>neighbor := Some (controls s' ! Suc i)\<rparr> \<and>
       neighbor (as ! sum_list (map leaves (take i cs))) = Some (controls s' ! Suc i) \<and>
       controls s' ! Suc i = snd (stack_results horizontal cs st x y w h d ! Suc i) \<and>
       (cs ! Suc i = Space \<longrightarrow>
          neighbor (as ! sum_list (map leaves (take i cs))) = Some Space)"
proof -
  let ?rs = "stack_results horizontal cs st x y w h d"
  from assms(2) have ne: "cs \<noteq> []" by auto
  have lens: "map (\<lambda>r. length (fst r)) ?rs = map leaves cs"
    using assms(1) by (rule stack_results_lengths)
  have i: "Suc i < length ?rs" using assms(2) by simp
  have "length (fst (?rs ! i)) = leaves (cs ! i)"
    using arg_cong [OF lens, of "\<lambda>l. l ! i"] assms(2) by simp
  with assms(3) have nonempty: "fst (?rs ! i) \<noteq> []" by auto
  have off: "sum_list (map (\<lambda>r. length (fst r)) (take i ?rs)) = sum_list (map leaves (take i cs))"
    using arg_cong [OF lens, of "take i"] by (simp add: take_map)
  have link: "linked ?rs ! sum_list (map leaves (take i cs))
       = (hd (fst (?rs ! i)))\<lparr>neighbor := Some (snd (?rs ! Suc i))\<rparr>"
    using linked_first_neighbor [OF i nonempty] by (simp add: off)
  have sp: "snd (?rs ! Suc i) = Space" if "cs ! Suc i = Space"
    using that assms(2) by (simp add: stack_results_nth Space_def space_def newStack_def)
  show ?thesis
    unfolding allocate_stack_results [OF assms(1) ne]
    using link i sp by (simp add: length_linked lens)
qed

theorem neighbor_is_next_control_witness:
  "well_formed (Stack False horizontal [leaf 10 5, Space, leaf 20 7] [False, False, False]
         [0, 0, 0] [0, 0, 0]) \<and>
   0 < leaves ([leaf 10 5, Space, leaf 20 7] ! 0) \<and>
   [leaf 10 5, Space, leaf 20 7] ! Suc 0 = Space \<and>
   neighbor
     (allocations_of
        (Stack False horizontal [leaf 10 5, Space, leaf 20 7] [False, False, False]
           [0, 0, 0] [0, 0, 0]) 0 0 30 9 no_margins ! 0) = Some Space"
  using
    neighbor_is_next_control
      [of False "[leaf 10 5, Space, leaf 20 7]" "[False, False, False]" "[0, 0, 0]" "[0, 0, 0]"
          0 0 0 30 9 no_margins]
  by (auto simp: Space_def space_def newStack_def allocations_of_def)

section \<open>Repeated calls\<close>

text \<open>
  C9. \<open>preferredSize\<close> returns a size and nothing else: it writes to no field. A call
  of \<open>allocate\<close> on a Stack that satisfies the invariant of the data model returns
  without panic and leaves a Stack with the same \<open>created\<close>, \<open>orientation\<close> and
  \<open>stretchy\<close> and with the same controls (each the same up to the caches of the Stacks
  in it, which their own \<open>allocate\<close> has written). A second call with the same
  rectangle and a sizing context of the same value returns the same allocations and
  leaves the same Stack, and \<open>preferredSize\<close> returns after the call what it returned
  before.
\<close>

theorem repeated_calls_agree:
  assumes "well_formed (Stack cr ori cs st ws hs)"
  shows
    "\<exists>as cs' ws' hs' d'.
       allocate (Stack cr ori cs st ws hs) x y w h d
         = Inr (as, Stack cr ori cs' st ws' hs', d') \<and>
       allocate (Stack cr ori cs' st ws' hs') x y w h d
         = Inr (as, Stack cr ori cs' st ws' hs', d') \<and>
       map config cs' = map config cs \<and>
       well_formed (Stack cr ori cs' st ws' hs') \<and>
       preferredSize (Stack cr ori cs' st ws' hs') e = preferredSize (Stack cr ori cs st ws hs) e"
proof -
  let ?s = "Stack cr ori cs st ws hs"
  let ?s' = "allocated ?s x y w h d"
  from allocate_total [OF assms, of x y w h d]
  obtain d' where a: "allocate ?s x y w h d = Inr (allocations_of ?s x y w h d, ?s', d')" ..
  from allocated_wf_config [OF assms, of x y w h d]
  have well_formed': "well_formed ?s'" and cfg: "config ?s' = config ?s" by simp_all
  from cfg obtain cs' ws' hs' where
    s': "?s' = Stack cr ori cs' st ws' hs'" and kids: "map config cs' = map config cs"
    by (cases ?s') auto
  have same: "allocate ?s' x y w h d = allocate ?s x y w h d"
    using well_formed' assms cfg by (rule allocate_same_config)
  have first: "allocate ?s x y w h d =
      Inr (allocations_of ?s x y w h d, Stack cr ori cs' st ws' hs', d')"
    using a by (simp only: s')
  have second: "allocate (Stack cr ori cs' st ws' hs') x y w h d =
      Inr (allocations_of ?s x y w h d, Stack cr ori cs' st ws' hs', d')"
    using same first by (simp only: s')
  have inv: "well_formed (Stack cr ori cs' st ws' hs')"
    using well_formed' by (simp only: s')
  have pref: "preferredSize (Stack cr ori cs' st ws' hs') e = preferredSize ?s e"
    using preferredSize_same_config [OF cfg, of e] by (simp only: s')
  from first second kids inv pref show ?thesis by blast
qed

theorem repeated_calls_agree_witness:
  "well_formed (Stack False horizontal
         [leaf 40 5, Stack False vertical [leaf 7 7] [True] [0] [0]] [False, True]
         [0, 0] [0, 0]) \<and>
   allocate (Stack False horizontal
         [leaf 40 5, Stack False vertical [leaf 7 7] [True] [0] [0]] [False, True]
         [0, 0] [0, 0]) 0 0 100 20 \<lparr>xmargin = 2, ymargin = 3, xpadding = 1, ypadding = 1\<rparr> =
     Inr ([\<lparr>alloc_x = 2, alloc_y = 3, alloc_width = 40, alloc_height = 14,
             neighbor = Some (Stack False vertical [leaf 7 7] [True] [55] [14])\<rparr>,
           \<lparr>alloc_x = 43, alloc_y = 3, alloc_width = 55, alloc_height = 14,
             neighbor = None\<rparr>],
          Stack False horizontal
            [leaf 40 5, Stack False vertical [leaf 7 7] [True] [55] [14]] [False, True]
            [40, 55] [14, 14],
          \<lparr>xmargin = 0, ymargin = 0, xpadding = 1, ypadding = 1\<rparr>) \<and>
   allocate (Stack False horizontal
         [leaf 40 5, Stack False vertical [leaf 7 7] [True] [55] [14]] [False, True]
         [40, 55] [14, 14]) 0 0 100 20 \<lparr>xmargin = 2, ymargin = 3, xpadding = 1, ypadding = 1\<rparr> =
     Inr ([\<lparr>alloc_x = 2, alloc_y = 3, alloc_width = 40, alloc_height = 14,
             neighbor = Some (Stack False vertical [leaf 7 7] [True] [55] [14])\<rparr>,
           \<lparr>alloc_x = 43, alloc_y = 3, alloc_width = 55, alloc_height = 14,
             neighbor = None\<rparr>],
          Stack False horizontal
            [leaf 40 5, Stack False vertical [leaf 7 7] [True] [55] [14]] [False, True]
            [40, 55] [14, 14],
          \<lparr>xmargin = 0, ymargin = 0, xpadding = 1, ypadding = 1\<rparr>)"
  using
    repeated_calls_agree
      [of False horizontal "[leaf 40 5, Stack False vertical [leaf 7 7] [True] [0] [0]]"
          "[False, True]" "[0, 0]" "[0, 0]" 0 0 100 20
          "\<lparr>xmargin = 2, ymargin = 3, xpadding = 1, ypadding = 1\<rparr>" no_margins]
  by (simp add: Let_def set_neighbor_def go_div_def)

end
